theory Spec2Isabelle
  imports Main
begin

section \<open>Dispatch keys and key sets\<close>

text \<open>
  The dispatch keys of the host dispatcher that \<^verbatim>\<open>DynamicLayer.cpp\<close> names, together
  with one backend key (\<open>CPU\<close>) that functorch does not control.  \<open>Autograd\<close> is the
  alias key a differentiation layer is tagged with; the per-backend autograd keys are the
  members of \<open>autograd_dispatch_keyset\<close>.
\<close>

datatype DispatchKey =
    Undefined
  | CPU
  | Batched
  | ADInplaceOrView
  | AutogradOther
  | AutogradCPU
  | AutogradCUDA
  | AutogradXLA
  | Autograd
  | FuncTorchDynamicLayerBackMode
  | FuncTorchDynamicLayerFrontMode
  | FuncTorchGradWrapper
  | FuncTorchBatched
  | FuncTorchVmapMode

type_synonym DispatchKeySet = "DispatchKey set"

text \<open>
  Modelled from the spec: the key constants of \<^verbatim>\<open>Constants.h\<close> (not among the sources).
  The batching-interception capability is \<open>kBatchedKey\<close>, the vectorized-mode marker is
  \<open>kVmapModeKey\<close>, the two interception hooks are the front and back mode keys.
\<close>

abbreviation kBatchedKey :: DispatchKey where
  "kBatchedKey \<equiv> FuncTorchBatched"

abbreviation kVmapModeKey :: DispatchKey where
  "kVmapModeKey \<equiv> FuncTorchVmapMode"

abbreviation kGradWrapperKey :: DispatchKey where
  "kGradWrapperKey \<equiv> FuncTorchGradWrapper"

abbreviation kDynamicLayerFrontModeKey :: DispatchKey where
  "kDynamicLayerFrontModeKey \<equiv> FuncTorchDynamicLayerFrontMode"

abbreviation kDynamicLayerBackModeKey :: DispatchKey where
  "kDynamicLayerBackModeKey \<equiv> FuncTorchDynamicLayerBackMode"

text \<open>
  Modelled from the spec: the host constant \<^verbatim>\<open>autograd_dispatch_keyset\<close> (the per-backend
  autograd keys), declared outside the sources; four representative backends are listed.
\<close>

definition autograd_dispatch_keyset :: DispatchKeySet where
  "autograd_dispatch_keyset = {AutogradCPU, AutogradCUDA, AutogradXLA, AutogradOther}"

definition all_dynlayer_keyset :: DispatchKeySet where
  "all_dynlayer_keyset =
     {kDynamicLayerFrontModeKey, kDynamicLayerBackModeKey, kGradWrapperKey, kBatchedKey,
      ADInplaceOrView} \<union> autograd_dispatch_keyset"

record LocalDispatchKeySet =
  included :: DispatchKeySet
  excluded :: DispatchKeySet

section \<open>Layer descriptors, tensors and the thread-local state\<close>

text \<open>
  \<^verbatim>\<open>DynamicLayer\<close>: the fields of the class.  \<open>lifeHandle\<close> is the address of the shared
  boolean cell (\<^verbatim>\<open>std::shared_ptr<bool>\<close>) in the store \<open>life\<close> of the state.
\<close>

record DynamicLayer =
  key :: DispatchKey
  layerId :: int
  batchSize :: "int option"
  prevGradMode :: "bool option"
  lifeHandle :: nat

text \<open>
  A \<^verbatim>\<open>Tensor\<close> is a reference to a tensor implementation object, or undefined.  The
  implementation objects live in the store \<open>impls\<close> of the state, so that two references
  to the same object see each other's updates.
\<close>

datatype Tensor = UndefinedTensor | TensorAt nat

record TensorMeta =
  sizes :: "int list"
  strides :: "int list"
  storage_offset :: int

text \<open>
  Modelled from the spec: the Value Wrapper of \<^verbatim>\<open>TensorWrapper.h\<close> and the batching
  wrapper of \<^verbatim>\<open>BatchedTensorImpl.h\<close> (neither is among the sources).  A wrapper carries
  its inner value, the level of the layer that created it, the address of that layer's
  liveness cell, and cached metadata.
\<close>

datatype TensorImpl =
    DenseImpl TensorMeta
  | TensorWrapper Tensor int nat TensorMeta
  | BatchedTensorImpl Tensor int int TensorMeta

datatype IValue =
    IVNone
  | IVInt int
  | IVBool bool
  | IVTensor Tensor
  | IVList "IValue list"
  | IVTensorList "Tensor list"
  | IVGenericDict "(IValue \<times> IValue) list"

record AliasInfo =
  isWrite :: bool

record Argument =
  alias_info :: "AliasInfo option"

record FunctionSchema =
  operator_name :: string
  arguments :: "Argument list"
  returns :: "Argument list"

text \<open>
  The state one thread sees: the fields of \<^verbatim>\<open>FuncTorchTLS\<close>, the dispatcher's
  thread-local key set, the autograd mode flag, the store of liveness cells and the
  store of tensor implementation objects.
\<close>

record State =
  dynamicLayerStack :: "DynamicLayer list"
  prev_local_keyset :: "LocalDispatchKeySet option"
  tls_local_dispatch_key_set :: LocalDispatchKeySet
  grad_mode :: bool
  life :: "bool list"
  impls :: "TensorImpl list"

text \<open>
  Every throw of the source is a value: \<open>InternalAssert\<close> for a failed
  \<^verbatim>\<open>TORCH_INTERNAL_ASSERT\<close>, \<open>MutationError\<close> for the \<^verbatim>\<open>TORCH_CHECK\<close> of the mutation
  check (with the operator's name), \<open>BadOptionalAccess\<close> for \<^verbatim>\<open>value()\<close> on an empty
  optional, \<open>OpError\<close> for an error raised by the operation that is called,
  \<open>Terminate\<close> for a throwing destructor, \<open>UndefinedBehaviour\<close> where the source reads
  a vector out of range or dereferences an empty optional, and \<open>SchemaNotFound\<close> for
  the throw of \<^verbatim>\<open>findSchemaOrThrow\<close>.  A failing computation still returns the state
  it leaves behind.
\<close>

datatype error =
    InternalAssert
  | MutationError string
  | BadOptionalAccess
  | OpError nat
  | Terminate
  | UndefinedBehaviour
  | SchemaNotFound

type_synonym 'a result = "(error + 'a) \<times> State"

type_synonym stack_result = "(error option \<times> IValue list) \<times> State"

section \<open>The layer stack\<close>

text \<open>Host function \<^verbatim>\<open>c10::impl::tls_set_dispatch_key_included\<close>.\<close>

definition tls_set_dispatch_key_included :: "DispatchKey \<Rightarrow> bool \<Rightarrow> State \<Rightarrow> State" where
  "tls_set_dispatch_key_included x desired_state s =
     (let tls = tls_local_dispatch_key_set s in
      if desired_state then
        s\<lparr>tls_local_dispatch_key_set := tls\<lparr>included := insert x (included tls)\<rparr>\<rparr>
      else
        s\<lparr>tls_local_dispatch_key_set := tls\<lparr>included := included tls - {x}\<rparr>\<rparr>)"

definition setDynamicLayerFrontBackKeysIncluded :: "bool \<Rightarrow> State \<Rightarrow> State" where
  "setDynamicLayerFrontBackKeysIncluded inc s =
     tls_set_dispatch_key_included kDynamicLayerBackModeKey inc
       (tls_set_dispatch_key_included kDynamicLayerFrontModeKey inc s)"

definition getLifeHandleForLevel :: "int \<Rightarrow> State \<Rightarrow> nat result" where
  "getLifeHandleForLevel level s =
     (if \<not> level \<ge> 1 then (Inl InternalAssert, s)
      else
        let idx = level - 1; dls = dynamicLayerStack s in
        if \<not> int (length dls) > idx then (Inl InternalAssert, s)
        else (Inr (lifeHandle (dls ! nat idx)), s))"

definition maybeCurrentDynamicLayer :: "State \<Rightarrow> DynamicLayer option" where
  "maybeCurrentDynamicLayer s =
     (if length (dynamicLayerStack s) = 0 then None
      else Some (last (dynamicLayerStack s)))"

definition getDynamicLayerStack :: "State \<Rightarrow> DynamicLayer list" where
  "getDynamicLayerStack s = dynamicLayerStack s"

definition setDynamicLayerStack :: "DynamicLayer list \<Rightarrow> State \<Rightarrow> State" where
  "setDynamicLayerStack stack s = s\<lparr>dynamicLayerStack := stack\<rparr>"

definition areTransformsActive :: "State \<Rightarrow> bool" where
  "areTransformsActive s =
     (kDynamicLayerBackModeKey \<in> included (tls_local_dispatch_key_set s))"

definition popDynamicLayer :: "State \<Rightarrow> DynamicLayer result" where
  "popDynamicLayer s =
     (if \<not> length (dynamicLayerStack s) > 0 then (Inl InternalAssert, s)
      else
        let result = last (dynamicLayerStack s) in
        if \<not> key result \<noteq> Undefined then (Inl InternalAssert, s)
        else
          let s1 = s\<lparr>dynamicLayerStack := butlast (dynamicLayerStack s)\<rparr> in
          if length (dynamicLayerStack s1) = 0
          then (Inr result, setDynamicLayerFrontBackKeysIncluded False s1)
          else (Inr result, s1))"

definition pushDynamicLayer :: "DynamicLayer \<Rightarrow> State \<Rightarrow> int result" where
  "pushDynamicLayer dynamic_layer s =
     (let was_empty = (length (dynamicLayerStack s) = 0);
          layerId' = 1 + int (length (dynamicLayerStack s)) in
      if \<not> layerId' = layerId dynamic_layer then (Inl InternalAssert, s)
      else
        let s1 = s\<lparr>dynamicLayerStack := dynamicLayerStack s @ [dynamic_layer]\<rparr> in
        if was_empty then
          (if prev_local_keyset s1 = None then (Inl InternalAssert, s1)
           else (Inr layerId', setDynamicLayerFrontBackKeysIncluded True s1))
        else (Inr layerId', s1))"

text \<open>
  The constructor of \<^verbatim>\<open>DynamicLayer\<close>.  Modelled from the spec: the initial value of the
  liveness cell is set in \<^verbatim>\<open>DynamicLayer.h\<close> (not among the sources); the cell is created
  true, fresh for each descriptor.
\<close>

definition DynamicLayer_ctor ::
  "DispatchKey \<Rightarrow> int \<Rightarrow> int option \<Rightarrow> bool option \<Rightarrow> State \<Rightarrow> DynamicLayer result" where
  "DynamicLayer_ctor k layer_id batch_size prev_grad_mode s =
     (let s1 = s\<lparr>life := life s @ [True]\<rparr>;
          layer = \<lparr>key = k, layerId = layer_id, batchSize = batch_size,
                   prevGradMode = prev_grad_mode, lifeHandle = length (life s)\<rparr> in
      if k = Autograd \<and> prev_grad_mode = None then (Inl InternalAssert, s1)
      else (Inr layer, s1))"

definition initAndPushDynamicLayer ::
  "DispatchKey \<Rightarrow> int option \<Rightarrow> bool option \<Rightarrow> State \<Rightarrow> int result" where
  "initAndPushDynamicLayer k batch_size prev_grad_mode s =
     (let was_empty = (length (dynamicLayerStack s) = 0) in
      if \<not> was_empty \<and> prev_local_keyset s = None then (Inl InternalAssert, s)
      else
        let s1 = (if was_empty
                  then s\<lparr>prev_local_keyset := Some (tls_local_dispatch_key_set s)\<rparr>
                  else s) in
        if \<not> k \<noteq> Undefined then (Inl InternalAssert, s1)
        else if \<not> k \<noteq> Batched then (Inl InternalAssert, s1)
        else if k = Autograd \<and> prev_grad_mode = None then (Inl InternalAssert, s1)
        else
          let layerId' = 1 + int (length (dynamicLayerStack s1)) in
          (case DynamicLayer_ctor k layerId' batch_size prev_grad_mode s1 of
             (Inl e, s2) \<Rightarrow> (Inl e, s2)
           | (Inr layer, s2) \<Rightarrow> pushDynamicLayer layer s2))"

definition popDynamicLayerAndDeleteMetadata :: "State \<Rightarrow> DynamicLayer result" where
  "popDynamicLayerAndDeleteMetadata s =
     (case popDynamicLayer s of
        (Inl e, s1) \<Rightarrow> (Inl e, s1)
      | (Inr result, s1) \<Rightarrow>
          let s2 = s1\<lparr>life := (life s1)[lifeHandle result := False]\<rparr> in
          if length (dynamicLayerStack s2) = 0
          then (Inr result, s2\<lparr>prev_local_keyset := None\<rparr>)
          else (Inr result, s2))"

text \<open>
  The invariant of the data model: the descriptor at depth \<open>i\<close> (from the bottom) has
  level \<open>i + 1\<close>.
\<close>

definition levels_ok :: "DynamicLayer list \<Rightarrow> bool" where
  "levels_ok dls = (map layerId dls = map int [1 ..< Suc (length dls)])"

section \<open>Value wrappers\<close>

definition impl_at :: "State \<Rightarrow> nat \<Rightarrow> TensorImpl option" where
  "impl_at s a = (if a < length (impls s) then Some (impls s ! a) else None)"

definition defined :: "Tensor \<Rightarrow> bool" where
  "defined t = (t \<noteq> UndefinedTensor)"

text \<open>
  Modelled from the spec: the wrapper queries of \<^verbatim>\<open>TensorWrapper.h\<close> and
  \<^verbatim>\<open>BatchedTensorImpl.h\<close> (not among the sources).  \<open>maybeGetTensorWrapper\<close> returns the
  address of the wrapper object when the tensor carries a differentiation wrapper;
  a wrapper is alive iff its liveness cell holds true; \<open>TensorWrapper_level\<close> is the level
  of a live wrapper and empty for a dead one.
\<close>

definition maybeGetTensorWrapper :: "Tensor \<Rightarrow> State \<Rightarrow> nat option" where
  "maybeGetTensorWrapper tensor s =
     (case tensor of
        UndefinedTensor \<Rightarrow> None
      | TensorAt a \<Rightarrow>
          (case impl_at s a of
             Some (TensorWrapper v l h m) \<Rightarrow> Some a
           | _ \<Rightarrow> None))"

definition maybeGetBatchedImpl :: "Tensor \<Rightarrow> State \<Rightarrow> nat option" where
  "maybeGetBatchedImpl tensor s =
     (case tensor of
        UndefinedTensor \<Rightarrow> None
      | TensorAt a \<Rightarrow>
          (case impl_at s a of
             Some (BatchedTensorImpl v d l m) \<Rightarrow> Some a
           | _ \<Rightarrow> None))"

definition is_alive :: "State \<Rightarrow> nat \<Rightarrow> bool" where
  "is_alive s w =
     (case impl_at s w of
        Some (TensorWrapper v l h m) \<Rightarrow> h < length (life s) \<and> life s ! h
      | _ \<Rightarrow> False)"

definition TensorWrapper_level :: "State \<Rightarrow> nat \<Rightarrow> int option" where
  "TensorWrapper_level s w =
     (case impl_at s w of
        Some (TensorWrapper v l h m) \<Rightarrow> (if is_alive s w then Some l else None)
      | _ \<Rightarrow> None)"

definition TensorWrapper_value :: "State \<Rightarrow> nat \<Rightarrow> Tensor" where
  "TensorWrapper_value s w =
     (case impl_at s w of
        Some (TensorWrapper v l h m) \<Rightarrow> v
      | _ \<Rightarrow> UndefinedTensor)"

definition BatchedTensorImpl_level :: "State \<Rightarrow> nat \<Rightarrow> int" where
  "BatchedTensorImpl_level s b =
     (case impl_at s b of
        Some (BatchedTensorImpl v d l m) \<Rightarrow> l
      | _ \<Rightarrow> 0)"

definition empty_meta :: TensorMeta where
  "empty_meta = \<lparr>sizes = [], strides = [], storage_offset = 0\<rparr>"

definition metadata_of :: "State \<Rightarrow> Tensor \<Rightarrow> TensorMeta" where
  "metadata_of s tensor =
     (case tensor of
        UndefinedTensor \<Rightarrow> empty_meta
      | TensorAt a \<Rightarrow>
          (case impl_at s a of
             Some (DenseImpl m) \<Rightarrow> m
           | Some (TensorWrapper v l h m) \<Rightarrow> m
           | Some (BatchedTensorImpl v d l m) \<Rightarrow> m
           | None \<Rightarrow> empty_meta))"

text \<open>
  Modelled from the spec: \<^verbatim>\<open>makeTensorWrapper\<close> of \<^verbatim>\<open>TensorWrapper.cpp\<close> (not among the
  sources) creates a fresh wrapper object over the given value, stamped with the level
  and with the liveness cell of the layer at that level (\<open>getLifeHandleForLevel\<close>, which
  is in the sources); the wrapper's cached metadata is that of the value.
\<close>

definition makeTensorWrapper :: "Tensor \<Rightarrow> int \<Rightarrow> State \<Rightarrow> Tensor result" where
  "makeTensorWrapper tensor level s =
     (case getLifeHandleForLevel level s of
        (Inl e, s1) \<Rightarrow> (Inl e, s1)
      | (Inr h, s1) \<Rightarrow>
          if \<not> defined tensor then (Inl InternalAssert, s1)
          else
            (Inr (TensorAt (length (impls s1))),
             s1\<lparr>impls := impls s1 @ [TensorWrapper tensor level h (metadata_of s1 tensor)]\<rparr>))"

text \<open>
  Modelled from the spec: \<^verbatim>\<open>TensorWrapper::refreshMetadata\<close> recomputes the wrapper's
  cached metadata from its inner value.
\<close>

definition refreshMetadata :: "nat \<Rightarrow> State \<Rightarrow> State" where
  "refreshMetadata w s =
     (case impl_at s w of
        Some (TensorWrapper v l h m) \<Rightarrow>
          s\<lparr>impls := (impls s)[w := TensorWrapper v l h (metadata_of s v)]\<rparr>
      | _ \<Rightarrow> s)"

definition materializeGradWrappers ::
  "Tensor \<Rightarrow> DynamicLayer list \<Rightarrow> State \<Rightarrow> Tensor result" where
  "materializeGradWrappers tensor dynlayerStack s =
     (if \<not> defined tensor then (Inr tensor, s)
      else if \<not> length dynlayerStack > 0 then (Inl InternalAssert, s)
      else if key (last dynlayerStack) \<noteq> Autograd then (Inr tensor, s)
      else
        let cur_level = layerId (last dynlayerStack) in
        (case maybeGetTensorWrapper tensor s of
           None \<Rightarrow> makeTensorWrapper tensor cur_level s
         | Some wrapper \<Rightarrow>
             (case TensorWrapper_level s wrapper of
                None \<Rightarrow> (Inl BadOptionalAccess, s)
              | Some l \<Rightarrow>
                  if \<not> l \<le> cur_level then (Inl InternalAssert, s)
                  else if l = cur_level then (Inr tensor, s)
                  else makeTensorWrapper tensor cur_level s)))"

definition unwrapIfDead :: "Tensor \<Rightarrow> State \<Rightarrow> Tensor" where
  "unwrapIfDead tensor s =
     (case maybeGetTensorWrapper tensor s of
        None \<Rightarrow> tensor
      | Some wrapped \<Rightarrow>
          if is_alive s wrapped then tensor
          else TensorWrapper_value s wrapped)"

section \<open>Traversing the arguments\<close>

text \<open>
  A loop over a vector whose body may throw: the elements before the throwing one have
  been replaced, the throwing one holds what its body left there, the rest is untouched.
\<close>

fun loop_list ::
  "('a \<Rightarrow> State \<Rightarrow> (error option \<times> 'a) \<times> State) \<Rightarrow> 'a list \<Rightarrow> State
   \<Rightarrow> (error option \<times> 'a list) \<times> State" where
  "loop_list body [] s = ((None, []), s)"
| "loop_list body (x # xs) s =
     (case body x s of
        ((Some e, y), s1) \<Rightarrow> ((Some e, y # xs), s1)
      | ((None, y), s1) \<Rightarrow>
          (case loop_list body xs s1 of
             ((r, ys), s2) \<Rightarrow> ((r, y # ys), s2)))"

text \<open>An assignment \<^verbatim>\<open>x = func(x)\<close>: when \<open>func\<close> throws, \<open>x\<close> keeps its value.\<close>

definition assign_result ::
  "('a \<Rightarrow> State \<Rightarrow> 'a result) \<Rightarrow> 'a \<Rightarrow> State \<Rightarrow> (error option \<times> 'a) \<times> State" where
  "assign_result func x s =
     (case func x s of
        (Inl e, s1) \<Rightarrow> ((Some e, x), s1)
      | (Inr y, s1) \<Rightarrow> ((None, y), s1))"

text \<open>
  The body of the loop of \<^verbatim>\<open>foreachTensorInplace\<close> for one position of the vector.
  A list is copied, so a throw of \<open>func\<close> leaves the position as it was.  In the host a
  tensor list answers \<^verbatim>\<open>isList()\<close> as well, so it takes the same copying branch (every
  element is a tensor), and the branch under \<^verbatim>\<open>isTensorList()\<close> is never reached.  Lists
  are values here: a list object shared between two positions of the vector is not
  modelled.
\<close>

definition foreachTensorInplace_body ::
  "(Tensor \<Rightarrow> State \<Rightarrow> Tensor result) \<Rightarrow> IValue \<Rightarrow> State
   \<Rightarrow> (error option \<times> IValue) \<times> State" where
  "foreachTensorInplace_body func ivalue s =
     (case ivalue of
        IVList list \<Rightarrow>
          (case loop_list
                  (\<lambda>elt. case elt of
                            IVTensor t \<Rightarrow>
                              (\<lambda>s'. case func t s' of
                                       (Inl e, s1) \<Rightarrow> ((Some e, elt), s1)
                                     | (Inr t', s1) \<Rightarrow> ((None, IVTensor t'), s1))
                          | _ \<Rightarrow> (\<lambda>s'. ((None, elt), s')))
                  list s of
             ((Some e, list'), s1) \<Rightarrow> ((Some e, ivalue), s1)
           | ((None, list'), s1) \<Rightarrow> ((None, IVList list'), s1))
      | IVTensorList list \<Rightarrow>
          (case loop_list (assign_result func) list s of
             ((Some e, list'), s1) \<Rightarrow> ((Some e, ivalue), s1)
           | ((None, list'), s1) \<Rightarrow> ((None, IVTensorList list'), s1))
      | IVGenericDict d \<Rightarrow> ((Some InternalAssert, ivalue), s)
      | IVTensor value' \<Rightarrow>
          (case func value' s of
             (Inl e, s1) \<Rightarrow> ((Some e, ivalue), s1)
           | (Inr replacement, s1) \<Rightarrow>
               if defined value' \<and> \<not> defined replacement
               then ((Some InternalAssert, IVTensor replacement), s1)
               else ((None, IVTensor replacement), s1))
      | _ \<Rightarrow> ((None, ivalue), s))"

definition foreachTensorInplace ::
  "IValue list \<Rightarrow> int \<Rightarrow> int \<Rightarrow> (Tensor \<Rightarrow> State \<Rightarrow> Tensor result) \<Rightarrow> State
   \<Rightarrow> stack_result" where
  "foreachTensorInplace args begin' end' func s =
     (if \<not> begin' \<ge> 0 then ((Some InternalAssert, args), s)
      else if \<not> end' \<ge> 0 then ((Some InternalAssert, args), s)
      else if \<not> begin' \<le> end' then ((Some InternalAssert, args), s)
      else if begin' < end' \<and> int (length args) < end'
      then ((Some UndefinedBehaviour, args), s)
      else
        (case loop_list (foreachTensorInplace_body func)
                (take (nat end' - nat begin') (drop (nat begin') args)) s of
           ((r, mid), s1) \<Rightarrow>
             ((r, take (nat begin') args @ mid @ drop (nat end') args), s1)))"

text \<open>A loop that returns false at the first element failing the test.\<close>

fun all_pred :: "('a \<Rightarrow> error + bool) \<Rightarrow> 'a list \<Rightarrow> error + bool" where
  "all_pred p [] = Inr True"
| "all_pred p (x # xs) =
     (case p x of
        Inl e \<Rightarrow> Inl e
      | Inr b \<Rightarrow> if b then all_pred p xs else Inr False)"

definition allTensors :: "IValue list \<Rightarrow> (Tensor \<Rightarrow> error + bool) \<Rightarrow> error + bool" where
  "allTensors args pred =
     all_pred
       (\<lambda>ivalue. case ivalue of
            IVList list \<Rightarrow>
              all_pred (\<lambda>elt. case elt of IVTensor t \<Rightarrow> pred t | _ \<Rightarrow> Inr True) list
          | IVTensorList list \<Rightarrow> all_pred pred list
          | IVGenericDict d \<Rightarrow> Inl InternalAssert
          | IVTensor t \<Rightarrow> pred t
          | _ \<Rightarrow> Inr True)
       args"

definition anyTensors :: "IValue list \<Rightarrow> (Tensor \<Rightarrow> error + bool) \<Rightarrow> error + bool" where
  "anyTensors args pred =
     (case allTensors args
             (\<lambda>self. case pred self of Inl e \<Rightarrow> Inl e | Inr b \<Rightarrow> Inr (\<not> b)) of
        Inl e \<Rightarrow> Inl e
      | Inr b \<Rightarrow> Inr (\<not> b))"

section \<open>Operators and their schemas\<close>

text \<open>
  An operator handle of the host dispatcher: its schema, and the boxed call that
  re-enters the dispatcher with the argument stack and the current thread-local state.
\<close>

record OperatorHandle =
  schema :: FunctionSchema
  callBoxed :: "IValue list \<Rightarrow> State \<Rightarrow> stack_result"

text \<open>Host function \<^verbatim>\<open>FunctionSchema::is_mutable\<close>: some argument is written to.\<close>

definition is_mutable :: "FunctionSchema \<Rightarrow> bool" where
  "is_mutable sch =
     list_ex (\<lambda>arg. case alias_info arg of None \<Rightarrow> False | Some a \<Rightarrow> isWrite a)
       (arguments sch)"

definition isInplaceOp :: "FunctionSchema \<Rightarrow> bool" where
  "isInplaceOp sch =
     (if \<not> is_mutable sch \<or> length (returns sch) \<noteq> 1 then False
      else
        (case arguments sch of
           [] \<Rightarrow> False
         | first # others \<Rightarrow>
             (case alias_info first of
                None \<Rightarrow> False
              | Some first_arg_alias_info \<Rightarrow>
                  if \<not> isWrite first_arg_alias_info then False
                  else if list_ex (\<lambda>arg. alias_info arg \<noteq> None) others then False
                  else
                    (case alias_info (returns sch ! 0) of
                       None \<Rightarrow> False
                     | Some return_alias_info \<Rightarrow> isWrite return_alias_info))))"

text \<open>Host function \<^verbatim>\<open>torch::jit::last\<close>: the top \<open>n\<close> entries of the stack.\<close>

definition last_n :: "IValue list \<Rightarrow> nat \<Rightarrow> IValue list" where
  "last_n stack n = drop (length stack - n) stack"

section \<open>The front interceptor\<close>

text \<open>The lambda that \<^verbatim>\<open>sanityCheckStack\<close> runs on every tensor.\<close>

definition sanityCheckStack_lambda :: "Tensor \<Rightarrow> State \<Rightarrow> Tensor result" where
  "sanityCheckStack_lambda tensor s =
     (if \<not> maybeGetTensorWrapper tensor s = None then (Inl InternalAssert, s)
      else if \<not> maybeGetBatchedImpl tensor s = None then (Inl InternalAssert, s)
      else (Inr tensor, s))"

definition sanityCheckStack :: "OperatorHandle \<Rightarrow> IValue list \<Rightarrow> State \<Rightarrow> stack_result" where
  "sanityCheckStack op stack s =
     (let num_args = length (arguments (schema op)) in
      foreachTensorInplace stack (int (length stack) - int num_args) (int (length stack))
        sanityCheckStack_lambda s)"

definition batchedAtCurrentLevel :: "State \<Rightarrow> Tensor \<Rightarrow> error + bool" where
  "batchedAtCurrentLevel s tensor =
     (if dynamicLayerStack s = [] then Inl UndefinedBehaviour
      else
        let layer = last (dynamicLayerStack s); level = layerId layer in
        (case maybeGetBatchedImpl tensor s of
           None \<Rightarrow> Inr False
         | Some batched \<Rightarrow> Inr (BatchedTensorImpl_level s batched = level)))"

definition checkForInvalidMutationOnCaptures ::
  "OperatorHandle \<Rightarrow> IValue list \<Rightarrow> DynamicLayer list \<Rightarrow> State \<Rightarrow> error option" where
  "checkForInvalidMutationOnCaptures op stack dls s =
     (if dls = [] then Some UndefinedBehaviour
      else if key (last dls) \<noteq> Autograd then None
      else if \<not> isInplaceOp (schema op) then None
      else if length stack < length (arguments (schema op)) then Some UndefinedBehaviour
      else
        (case last_n stack (length (arguments (schema op))) ! 0 of
           IVTensor t \<Rightarrow>
             let mutated_arg = unwrapIfDead t s;
                 cur_level = layerId (last dls) in
             (case maybeGetTensorWrapper mutated_arg s of
                None \<Rightarrow> Some (MutationError (operator_name (schema op)))
              | Some wrapper \<Rightarrow>
                  if TensorWrapper_level s wrapper \<noteq> None
                     \<and> the (TensorWrapper_level s wrapper) = cur_level
                  then None
                  else Some (MutationError (operator_name (schema op))))
         | _ \<Rightarrow> Some InternalAssert))"

definition getIncludeExcludeSetsFor ::
  "DispatchKey \<Rightarrow> error + (DispatchKeySet \<times> DispatchKeySet)" where
  "getIncludeExcludeSetsFor k =
     (let include = {};
          exclude = all_dynlayer_keyset;
          exclude = exclude - {kDynamicLayerBackModeKey} in
      if k = Autograd then
        (let exclude = exclude - autograd_dispatch_keyset;
             exclude = exclude - {ADInplaceOrView} in
         Inr (include, exclude))
      else if k = kBatchedKey then
        (let exclude = exclude - {kBatchedKey};
             include = insert kVmapModeKey include in
         Inr (include, exclude))
      else Inl InternalAssert)"

text \<open>
  \<^verbatim>\<open>resetFunctorchLocalDispatchKeySetRAII\<close> returns a guard; the guard is the key set it
  saved, which its destructor forces back.
\<close>

definition resetFunctorchLocalDispatchKeySetRAII :: "State \<Rightarrow> LocalDispatchKeySet result" where
  "resetFunctorchLocalDispatchKeySetRAII s =
     (let cur = tls_local_dispatch_key_set s;
          new_included = included cur - all_dynlayer_keyset;
          new_excluded = excluded cur - all_dynlayer_keyset in
      (case prev_local_keyset s of
         None \<Rightarrow> (Inl InternalAssert, s)
       | Some prev_keyset \<Rightarrow>
           let new_local_dispatch_key_set =
                 \<lparr>included = new_included \<union> (included prev_keyset \<inter> all_dynlayer_keyset),
                  excluded = new_excluded \<union> (excluded prev_keyset \<inter> all_dynlayer_keyset)\<rparr> in
           (Inr cur, s\<lparr>tls_local_dispatch_key_set := new_local_dispatch_key_set\<rparr>)))"

definition ForceLocalDispatchKeySet_dtor :: "LocalDispatchKeySet \<Rightarrow> State \<Rightarrow> State" where
  "ForceLocalDispatchKeySet_dtor saved_keyset s =
     s\<lparr>tls_local_dispatch_key_set := saved_keyset\<rparr>"

text \<open>
  Host guards \<^verbatim>\<open>c10::impl::ExcludeDispatchKeyGuard\<close> and
  \<^verbatim>\<open>IncludeDispatchKeyGuard\<close>: the constructor adds the keys that are not yet in the
  thread-local set and remembers them; the destructor takes exactly those out again.
\<close>

definition ExcludeDispatchKeyGuard_ctor :: "DispatchKeySet \<Rightarrow> State \<Rightarrow> DispatchKeySet \<times> State" where
  "ExcludeDispatchKeyGuard_ctor exclude s =
     (let tls = tls_local_dispatch_key_set s;
          exclude' = exclude - excluded tls in
      (exclude', s\<lparr>tls_local_dispatch_key_set := tls\<lparr>excluded := excluded tls \<union> exclude'\<rparr>\<rparr>))"

definition ExcludeDispatchKeyGuard_dtor :: "DispatchKeySet \<Rightarrow> State \<Rightarrow> State" where
  "ExcludeDispatchKeyGuard_dtor exclude' s =
     (let tls = tls_local_dispatch_key_set s in
      s\<lparr>tls_local_dispatch_key_set := tls\<lparr>excluded := excluded tls - exclude'\<rparr>\<rparr>)"

definition IncludeDispatchKeyGuard_ctor :: "DispatchKeySet \<Rightarrow> State \<Rightarrow> DispatchKeySet \<times> State" where
  "IncludeDispatchKeyGuard_ctor include s =
     (let tls = tls_local_dispatch_key_set s;
          include' = include - included tls in
      (include', s\<lparr>tls_local_dispatch_key_set := tls\<lparr>included := included tls \<union> include'\<rparr>\<rparr>))"

definition IncludeDispatchKeyGuard_dtor :: "DispatchKeySet \<Rightarrow> State \<Rightarrow> State" where
  "IncludeDispatchKeyGuard_dtor include' s =
     (let tls = tls_local_dispatch_key_set s in
      s\<lparr>tls_local_dispatch_key_set := tls\<lparr>included := included tls - include'\<rparr>\<rparr>)"

text \<open>The lambda \<^verbatim>\<open>maybeTransformGradWrappers\<close> of the front interceptor.\<close>

definition maybeTransformGradWrappers :: "Tensor \<Rightarrow> State \<Rightarrow> Tensor result" where
  "maybeTransformGradWrappers tensor s =
     (let result = unwrapIfDead tensor s in
      materializeGradWrappers result (getDynamicLayerStack s) s)"

definition dynamicLayerFrontFallback ::
  "OperatorHandle \<Rightarrow> IValue list \<Rightarrow> State \<Rightarrow> stack_result" where
  "dynamicLayerFrontFallback op stack s =
     (if length (dynamicLayerStack s) = 0 then
        (case sanityCheckStack op stack s of
           ((Some e, stack1), s1) \<Rightarrow> ((Some e, stack1), s1)
         | ((None, stack1), s1) \<Rightarrow>
             (case resetFunctorchLocalDispatchKeySetRAII s1 of
                (Inl e, s2) \<Rightarrow> ((Some e, stack1), s2)
              | (Inr guard, s2) \<Rightarrow>
                  (case callBoxed op stack1 s2 of
                     ((r, stack3), s3) \<Rightarrow>
                       ((r, stack3), ForceLocalDispatchKeySet_dtor guard s3))))
      else
        (case checkForInvalidMutationOnCaptures op stack (dynamicLayerStack s) s of
           Some e \<Rightarrow> ((Some e, stack), s)
         | None \<Rightarrow>
             let num_args = length (arguments (schema op)) in
             (case foreachTensorInplace stack (int (length stack) - int num_args)
                     (int (length stack)) maybeTransformGradWrappers s of
                ((Some e, stack1), s1) \<Rightarrow> ((Some e, stack1), s1)
              | ((None, stack1), s1) \<Rightarrow>
                  let layer = last (dynamicLayerStack s1) in
                  (case getIncludeExcludeSetsFor (key layer) of
                     Inl e \<Rightarrow> ((Some e, stack1), s1)
                   | Inr (include, exclude) \<Rightarrow>
                       (case (if key layer = kBatchedKey then
                                (case anyTensors (last_n stack1 (length (arguments (schema op))))
                                        (batchedAtCurrentLevel s1) of
                                   Inl e \<Rightarrow> Inl e
                                 | Inr b \<Rightarrow>
                                     Inr (if \<not> b then insert kBatchedKey exclude else exclude))
                              else Inr exclude) of
                          Inl e \<Rightarrow> ((Some e, stack1), s1)
                        | Inr exclude \<Rightarrow>
                            (case ExcludeDispatchKeyGuard_ctor exclude s1 of
                               (exclude_guard, s2) \<Rightarrow>
                                 (case IncludeDispatchKeyGuard_ctor include s2 of
                                    (include_guard, s3) \<Rightarrow>
                                      (case callBoxed op stack1 s3 of
                                         ((r, stack4), s4) \<Rightarrow>
                                           ((r, stack4),
                                            ExcludeDispatchKeyGuard_dtor exclude_guard
                                              (IncludeDispatchKeyGuard_dtor include_guard
                                                 s4))))))))))"

section \<open>The back interceptor\<close>

text \<open>The lambdas \<^verbatim>\<open>unwrap\<close> and \<^verbatim>\<open>wrap\<close> of the back interceptor.\<close>

definition backFallback_unwrap :: "int \<Rightarrow> Tensor \<Rightarrow> State \<Rightarrow> Tensor result" where
  "backFallback_unwrap cur_level tensor s =
     (if \<not> defined tensor then (Inr tensor, s)
      else
        (case maybeGetTensorWrapper tensor s of
           None \<Rightarrow> (Inr tensor, s)
         | Some maybe_tensor_wrapper \<Rightarrow>
             (case TensorWrapper_level s maybe_tensor_wrapper of
                None \<Rightarrow> (Inl BadOptionalAccess, s)
              | Some tensor_wrapper_level \<Rightarrow>
                  if \<not> tensor_wrapper_level \<le> cur_level then (Inl InternalAssert, s)
                  else if tensor_wrapper_level = cur_level
                  then (Inr (TensorWrapper_value s maybe_tensor_wrapper), s)
                  else (Inr tensor, s))))"

definition backFallback_wrap :: "int \<Rightarrow> Tensor \<Rightarrow> State \<Rightarrow> Tensor result" where
  "backFallback_wrap cur_level tensor s =
     (if \<not> defined tensor then (Inr tensor, s)
      else makeTensorWrapper tensor cur_level s)"

text \<open>Steps 1 and 2: a copy of the arguments is pushed and unwrapped.\<close>

definition backFallback_step12 ::
  "OperatorHandle \<Rightarrow> DispatchKey \<Rightarrow> int \<Rightarrow> IValue list \<Rightarrow> State \<Rightarrow> stack_result" where
  "backFallback_step12 op cur_key cur_level stack s =
     (if cur_key = Autograd then
        (let args_size = length (arguments (schema op)) in
         if length stack < args_size then ((Some UndefinedBehaviour, stack), s)
         else
           let front = length stack - args_size;
               stack1 = stack @ take args_size (drop front stack) in
           foreachTensorInplace stack1 (int (length stack1) - int args_size)
             (int (length stack1)) (backFallback_unwrap cur_level) s)
      else ((None, stack), s))"

text \<open>
  The destructor of \<^verbatim>\<open>WithoutTop\<close> pushes the layer back.  A destructor that throws
  ends the process.
\<close>

definition WithoutTop_dtor ::
  "DynamicLayer \<Rightarrow> error option \<Rightarrow> IValue list \<Rightarrow> State \<Rightarrow> stack_result" where
  "WithoutTop_dtor layer r stack s =
     (case pushDynamicLayer layer s of
        (Inl e, s1) \<Rightarrow> ((Some Terminate, stack), s1)
      | (Inr l, s1) \<Rightarrow> ((r, stack), s1))"

text \<open>The scoped block: the call runs without the top layer.\<close>

definition backFallback_redispatch ::
  "OperatorHandle \<Rightarrow> DispatchKey \<Rightarrow> bool option \<Rightarrow> IValue list \<Rightarrow> State \<Rightarrow> stack_result" where
  "backFallback_redispatch op cur_key prev_grad_mode stack s =
     (case popDynamicLayer s of
        (Inl e, s1) \<Rightarrow> ((Some e, stack), s1)
      | (Inr layer, s1) \<Rightarrow>
          (case resetFunctorchLocalDispatchKeySetRAII s1 of
             (Inl e, s2) \<Rightarrow> WithoutTop_dtor layer (Some e) stack s2
           | (Inr key_guard, s2) \<Rightarrow>
               let s3 = setDynamicLayerFrontBackKeysIncluded True s2 in
               (case (if cur_key = Autograd \<and> prev_grad_mode = Some False then
                        (let prev_mode = grad_mode s3 in
                         (case callBoxed op stack (s3\<lparr>grad_mode := False\<rparr>) of
                            ((r, stack4), s4) \<Rightarrow> ((r, stack4), s4\<lparr>grad_mode := prev_mode\<rparr>)))
                      else callBoxed op stack s3) of
                  ((r, stack4), s4) \<Rightarrow>
                    WithoutTop_dtor layer r stack4
                      (ForceLocalDispatchKeySet_dtor key_guard s4))))"

text \<open>Step 5: the wrappers of the original arguments refresh their metadata.\<close>

definition refresh_arg :: "IValue \<Rightarrow> State \<Rightarrow> State" where
  "refresh_arg ivalue s =
     (case ivalue of
        IVTensor t \<Rightarrow>
          (case maybeGetTensorWrapper t s of
             None \<Rightarrow> s
           | Some maybe_tensor_wrapper \<Rightarrow> refreshMetadata maybe_tensor_wrapper s)
      | _ \<Rightarrow> s)"

text \<open>Steps 4, 5 and 6.\<close>

definition backFallback_step456 ::
  "OperatorHandle \<Rightarrow> DispatchKey \<Rightarrow> int \<Rightarrow> IValue list \<Rightarrow> State \<Rightarrow> stack_result" where
  "backFallback_step456 op cur_key cur_level stack s =
     (if cur_key = Autograd then
        (let ret_size = length (returns (schema op)) in
         (case foreachTensorInplace stack (int (length stack) - int ret_size)
                 (int (length stack)) (backFallback_wrap cur_level) s of
            ((Some e, stack1), s1) \<Rightarrow> ((Some e, stack1), s1)
          | ((None, stack1), s1) \<Rightarrow>
              let args_size = length (arguments (schema op)) in
              if length stack1 < args_size + ret_size
              then ((Some UndefinedBehaviour, stack1), s1)
              else
                let args_front = length stack1 - args_size - ret_size;
                    s2 = fold refresh_arg (take args_size (drop args_front stack1)) s1 in
                ((None, take args_front stack1 @ drop (length stack1 - ret_size) stack1),
                 s2)))
      else ((None, stack), s))"

definition dynamicLayerBackFallback ::
  "OperatorHandle \<Rightarrow> IValue list \<Rightarrow> State \<Rightarrow> stack_result" where
  "dynamicLayerBackFallback op stack s =
     (if dynamicLayerStack s = [] then ((Some UndefinedBehaviour, stack), s)
      else
        let cur_level = layerId (last (getDynamicLayerStack s));
            cur_key = key (last (getDynamicLayerStack s));
            prev_grad_mode = prevGradMode (last (getDynamicLayerStack s)) in
        if cur_key = Autograd \<and> prev_grad_mode = None then ((Some InternalAssert, stack), s)
        else
          (case backFallback_step12 op cur_key cur_level stack s of
             ((Some e, stack1), s1) \<Rightarrow> ((Some e, stack1), s1)
           | ((None, stack1), s1) \<Rightarrow>
               (case backFallback_redispatch op cur_key prev_grad_mode stack1 s1 of
                  ((Some e, stack2), s2) \<Rightarrow> ((Some e, stack2), s2)
                | ((None, stack2), s2) \<Rightarrow>
                    backFallback_step456 op cur_key cur_level stack2 s2)))"

section \<open>The batching rule of \<^verbatim>\<open>nll_loss_forward\<close>\<close>

text \<open>
  The tensor library and the dispatcher of the host, as far as \<^verbatim>\<open>BatchRulesLoss.cpp\<close>
  and the generic slow path call them.  They are not part of the repository, so they
  are parameters of the model: every function may read and extend the state and may
  fail.  \<open>at_select\<close> takes the slice of a tensor at an index along a dimension, \<open>at_stack\<close>
  joins tensors along a new dimension.
\<close>

record ATen =
  tensor_dim :: "Tensor \<Rightarrow> State \<Rightarrow> int result"
  tensor_size :: "Tensor \<Rightarrow> int \<Rightarrow> State \<Rightarrow> int result"
  reshape_dim_into :: "int \<Rightarrow> int \<Rightarrow> Tensor \<Rightarrow> State \<Rightarrow> Tensor result"
  reshape_dim_outof :: "int \<Rightarrow> int \<Rightarrow> Tensor \<Rightarrow> State \<Rightarrow> Tensor result"
  at_nll_loss_forward ::
    "Tensor \<Rightarrow> Tensor \<Rightarrow> Tensor option \<Rightarrow> int \<Rightarrow> int \<Rightarrow> State \<Rightarrow> (Tensor \<times> Tensor) result"
  new_full :: "Tensor \<Rightarrow> int list \<Rightarrow> int \<Rightarrow> State \<Rightarrow> Tensor result"
  tensor_sum :: "Tensor \<Rightarrow> int \<Rightarrow> State \<Rightarrow> Tensor result"
  tensor_mean :: "Tensor \<Rightarrow> int \<Rightarrow> State \<Rightarrow> Tensor result"
  at_select :: "Tensor \<Rightarrow> int \<Rightarrow> int \<Rightarrow> State \<Rightarrow> Tensor result"
  at_stack :: "Tensor list \<Rightarrow> int \<Rightarrow> State \<Rightarrow> Tensor result"
  findSchema :: "string \<Rightarrow> string \<Rightarrow> OperatorHandle option"

text \<open>The values of \<^verbatim>\<open>at::Reduction\<close>.\<close>

definition Reduction_None :: int where "Reduction_None = 0"
definition Reduction_Mean :: int where "Reduction_Mean = 1"
definition Reduction_Sum :: int where "Reduction_Sum = 2"

text \<open>Sequencing of two computations that may fail: a failure ends the sequence.\<close>

definition and_then :: "'a result \<Rightarrow> ('a \<Rightarrow> State \<Rightarrow> 'b result) \<Rightarrow> 'b result" where
  "and_then r f = (case r of (Inl e, s1) \<Rightarrow> (Inl e, s1) | (Inr x, s1) \<Rightarrow> f x s1)"

definition findSchemaOrThrow :: "ATen \<Rightarrow> string \<Rightarrow> string \<Rightarrow> error + OperatorHandle" where
  "findSchemaOrThrow at name overload_name =
     (case findSchema at name overload_name of
        None \<Rightarrow> Inl SchemaNotFound
      | Some op \<Rightarrow> Inr op)"

text \<open>
  Modelled from the spec: \<^verbatim>\<open>unwrapTensorAtLevel\<close> and \<^verbatim>\<open>makeBatched\<close> of
  \<^verbatim>\<open>PlumbingHelper.cpp\<close> and \<^verbatim>\<open>BatchedTensorImpl.cpp\<close> (not among the sources).  The first
  gives the inner value and the batch dimension of a tensor that is batched at the level,
  and the tensor itself with no batch dimension otherwise; the second wraps a value with
  a batch dimension into a new batching wrapper at the level and returns a value without
  one as it is.
\<close>

definition BatchedTensorImpl_value :: "State \<Rightarrow> nat \<Rightarrow> Tensor" where
  "BatchedTensorImpl_value s b =
     (case impl_at s b of
        Some (BatchedTensorImpl v d l m) \<Rightarrow> v
      | _ \<Rightarrow> UndefinedTensor)"

definition BatchedTensorImpl_bdim :: "State \<Rightarrow> nat \<Rightarrow> int" where
  "BatchedTensorImpl_bdim s b =
     (case impl_at s b of
        Some (BatchedTensorImpl v d l m) \<Rightarrow> d
      | _ \<Rightarrow> 0)"

definition unwrapTensorAtLevel :: "Tensor \<Rightarrow> int \<Rightarrow> State \<Rightarrow> Tensor \<times> int option" where
  "unwrapTensorAtLevel tensor level s =
     (case maybeGetBatchedImpl tensor s of
        None \<Rightarrow> (tensor, None)
      | Some batched \<Rightarrow>
          if BatchedTensorImpl_level s batched = level
          then (BatchedTensorImpl_value s batched, Some (BatchedTensorImpl_bdim s batched))
          else (tensor, None))"

definition makeBatched :: "Tensor \<Rightarrow> int option \<Rightarrow> int \<Rightarrow> State \<Rightarrow> Tensor \<times> State" where
  "makeBatched tensor bdim level s =
     (case bdim of
        None \<Rightarrow> (tensor, s)
      | Some d \<Rightarrow>
          (TensorAt (length (impls s)),
           s\<lparr>impls := impls s @ [BatchedTensorImpl tensor d level (metadata_of s tensor)]\<rparr>))"

text \<open>
  Modelled from the spec: \<^verbatim>\<open>slow_fallback\<close> of \<^verbatim>\<open>BatchedFallback.cpp\<close> (not among the
  sources), instantiated at two tensor results: the generic slow path, which loops the
  operation over the vectorized dimension explicitly.  The extent of that dimension is
  the batch size of the current layer.  For every index of the batch, from the first to
  the last, each argument that is a tensor batched at the level of the current layer is
  replaced by the slice of its inner value at that index along its batch dimension, the
  operation is called on these arguments, and its two results are kept.  The results of
  all indices are joined along a new first dimension, which is the batch dimension of
  the two tensors returned.
\<close>

definition slice_arg :: "ATen \<Rightarrow> int \<Rightarrow> int \<Rightarrow> IValue \<Rightarrow> State \<Rightarrow> IValue result" where
  "slice_arg at level index ivalue s =
     (case ivalue of
        IVTensor t \<Rightarrow>
          (case unwrapTensorAtLevel t level s of
             (inner, Some bdim) \<Rightarrow>
               (case at_select at inner bdim index s of
                  (Inl e, s1) \<Rightarrow> (Inl e, s1)
                | (Inr slice, s1) \<Rightarrow> (Inr (IVTensor slice), s1))
           | (inner, None) \<Rightarrow> (Inr ivalue, s))
      | _ \<Rightarrow> (Inr ivalue, s))"

fun slice_args :: "ATen \<Rightarrow> int \<Rightarrow> int \<Rightarrow> IValue list \<Rightarrow> State \<Rightarrow> (IValue list) result" where
  "slice_args at level index [] s = (Inr [], s)"
| "slice_args at level index (ivalue # rest) s =
     (case slice_arg at level index ivalue s of
        (Inl e, s1) \<Rightarrow> (Inl e, s1)
      | (Inr sliced, s1) \<Rightarrow>
          (case slice_args at level index rest s1 of
             (Inl e, s2) \<Rightarrow> (Inl e, s2)
           | (Inr slices, s2) \<Rightarrow> (Inr (sliced # slices), s2)))"

definition call_for_two_tensors ::
  "OperatorHandle \<Rightarrow> IValue list \<Rightarrow> State \<Rightarrow> (Tensor \<times> Tensor) result" where
  "call_for_two_tensors op args s =
     (case callBoxed op args s of
        ((Some e, stack1), s1) \<Rightarrow> (Inl e, s1)
      | ((None, stack1), s1) \<Rightarrow>
          (case stack1 of
             [IVTensor r0, IVTensor r1] \<Rightarrow> (Inr (r0, r1), s1)
           | _ \<Rightarrow> (Inl InternalAssert, s1)))"

fun slow_fallback_loop ::
  "ATen \<Rightarrow> OperatorHandle \<Rightarrow> int \<Rightarrow> IValue list \<Rightarrow> int \<Rightarrow> nat \<Rightarrow> (Tensor \<times> Tensor) list
     \<Rightarrow> State \<Rightarrow> ((Tensor \<times> Tensor) list) result" where
  "slow_fallback_loop at op level args index 0 shards s = (Inr shards, s)"
| "slow_fallback_loop at op level args index (Suc remaining) shards s =
     (case slice_args at level index args s of
        (Inl e, s1) \<Rightarrow> (Inl e, s1)
      | (Inr sliced, s1) \<Rightarrow>
          (case call_for_two_tensors op sliced s1 of
             (Inl e, s2) \<Rightarrow> (Inl e, s2)
           | (Inr shard, s2) \<Rightarrow>
               slow_fallback_loop at op level args (index + 1) remaining (shards @ [shard]) s2))"

definition slow_fallback ::
  "ATen \<Rightarrow> OperatorHandle \<Rightarrow> IValue list \<Rightarrow> State \<Rightarrow> (Tensor \<times> Tensor) result" where
  "slow_fallback at op args s =
     (case maybeCurrentDynamicLayer s of
        None \<Rightarrow> (Inl InternalAssert, s)
      | Some layer \<Rightarrow>
          (case batchSize layer of
             None \<Rightarrow> (Inl InternalAssert, s)
           | Some batch_size \<Rightarrow>
               and_then (slow_fallback_loop at op (layerId layer) args 0 (nat batch_size) [] s)
                 (\<lambda>shards s.
               and_then (at_stack at (map fst shards) 0 s) (\<lambda>out0 s.
               and_then (at_stack at (map snd shards) 0 s) (\<lambda>out1 s.
                 (case makeBatched out0 (Some 0) (layerId layer) s of
                    (t0, s) \<Rightarrow>
                      (case makeBatched out1 (Some 0) (layerId layer) s of
                         (t1, s) \<Rightarrow> (Inr (t0, t1), s))))))))"

text \<open>
  \<^verbatim>\<open>nll_loss_forward_self_target_batch_rule\<close>.  Dereferencing an empty batch dimension is
  undefined behaviour in the source.
\<close>

definition nll_loss_forward_self_target_batch_rule ::
  "ATen \<Rightarrow> Tensor \<Rightarrow> int option \<Rightarrow> Tensor \<Rightarrow> int option \<Rightarrow> int \<Rightarrow> State
     \<Rightarrow> (Tensor \<times> int option \<times> Tensor \<times> int option) result" where
  "nll_loss_forward_self_target_batch_rule at self self_bdim target target_bdim reduction s =
     and_then (tensor_dim at self s) (\<lambda>self_dim s.
     and_then (if self_dim = 3 then tensor_dim at target s else (Inr 0, s)) (\<lambda>target_dim s.
       if \<not> (self_dim = 3 \<and> target_dim = 2) then (Inl InternalAssert, s)
       else if reduction = Reduction_None \<or> reduction = Reduction_Sum
               \<or> reduction = Reduction_Mean then
         (case (self_bdim, target_bdim) of
            (Some sb, Some tb) \<Rightarrow>
              and_then (tensor_size at self sb s) (\<lambda>batch_size s.
              and_then (reshape_dim_into at sb 0 self s) (\<lambda>self' s.
              and_then (reshape_dim_into at tb 0 target s) (\<lambda>target' s.
                if reduction = Reduction_None then
                  and_then (at_nll_loss_forward at self' target' None reduction (- 100) s)
                    (\<lambda>result s.
                  and_then (reshape_dim_outof at 0 batch_size (fst result) s) (\<lambda>output s.
                    (Inr (output, Some 0, snd result, None), s)))
                else
                  and_then (at_nll_loss_forward at self' target' None Reduction_None (- 100) s)
                    (\<lambda>res s.
                  and_then (reshape_dim_outof at 0 batch_size (fst res) s) (\<lambda>output s.
                  and_then (tensor_size at output (- 1) s) (\<lambda>last_size s.
                  and_then (new_full at self' [] last_size s) (\<lambda>total_weight s.
                  and_then (if reduction = Reduction_Sum then tensor_sum at output (- 1) s
                            else tensor_mean at output (- 1) s) (\<lambda>reduced s.
                    (Inr (reduced, Some 0, total_weight, None), s)))))))))
          | _ \<Rightarrow> (Inl UndefinedBehaviour, s))
       else (Inl InternalAssert, s)))"

text \<open>
  \<^verbatim>\<open>nll_loss_forward_plumbing\<close>.  The guard that excludes \<open>kBatchedKey\<close> lives until the
  function returns or the rule throws.
\<close>

definition nll_loss_forward_plumbing ::
  "ATen \<Rightarrow> Tensor \<Rightarrow> Tensor \<Rightarrow> Tensor option \<Rightarrow> int \<Rightarrow> int \<Rightarrow> State
     \<Rightarrow> (Tensor \<times> Tensor) result" where
  "nll_loss_forward_plumbing at self target weight reduction ignore_index s =
     (case maybeCurrentDynamicLayer s of
        None \<Rightarrow> (Inl InternalAssert, s)
      | Some maybe_layer \<Rightarrow>
          let cur_level = layerId maybe_layer;
              self_value = fst (unwrapTensorAtLevel self cur_level s);
              self_bdim = snd (unwrapTensorAtLevel self cur_level s);
              target_value = fst (unwrapTensorAtLevel target cur_level s);
              target_bdim = snd (unwrapTensorAtLevel target cur_level s);
              weight_bdim =
                (case weight of
                   None \<Rightarrow> None
                 | Some w \<Rightarrow> snd (unwrapTensorAtLevel w cur_level s)) in
          if self_bdim \<noteq> None \<and> target_bdim \<noteq> None \<and> weight_bdim = None \<and> ignore_index < 0
          then
            (case ExcludeDispatchKeyGuard_ctor {kBatchedKey} s of
               (guard, s1) \<Rightarrow>
                 (case nll_loss_forward_self_target_batch_rule at self_value self_bdim
                         target_value target_bdim reduction s1 of
                    (Inl e, s2) \<Rightarrow> (Inl e, ExcludeDispatchKeyGuard_dtor guard s2)
                  | (Inr (r0, b0, r1, b1), s2) \<Rightarrow>
                      (case makeBatched r0 b0 cur_level s2 of
                         (t0, s3) \<Rightarrow>
                           (case makeBatched r1 b1 cur_level s3 of
                              (t1, s4) \<Rightarrow>
                                (Inr (t0, t1), ExcludeDispatchKeyGuard_dtor guard s4)))))
          else
            (case findSchemaOrThrow at ''aten::nll_loss_forward'' '''' of
               Inl e \<Rightarrow> (Inl e, s)
             | Inr op \<Rightarrow>
                 slow_fallback at op
                   [IVTensor self, IVTensor target,
                    (case weight of None \<Rightarrow> IVNone | Some w \<Rightarrow> IVTensor w),
                    IVInt reduction, IVInt ignore_index] s))"

section \<open>Notions used to state the properties\<close>

text \<open>
  A tensor is wrapped at a level when it carries a differentiation wrapper that is alive
  and stamped with that level.
\<close>

definition wrappedAtLevel :: "State \<Rightarrow> Tensor \<Rightarrow> int \<Rightarrow> bool" where
  "wrappedAtLevel s tensor lvl =
     (case maybeGetTensorWrapper tensor s of
        None \<Rightarrow> False
      | Some w \<Rightarrow> TensorWrapper_level s w = Some lvl)"

definition isGenericDict :: "IValue \<Rightarrow> bool" where
  "isGenericDict ivalue = (case ivalue of IVGenericDict d \<Rightarrow> True | _ \<Rightarrow> False)"

text \<open>
  What the traversal is meant to compute, for a function \<open>g\<close> on tensors: every tensor of
  an argument is replaced by its image; everything else stays.
\<close>

definition map_tensors :: "(Tensor \<Rightarrow> Tensor) \<Rightarrow> IValue \<Rightarrow> IValue" where
  "map_tensors g ivalue =
     (case ivalue of
        IVTensor t \<Rightarrow> IVTensor (g t)
      | IVList list \<Rightarrow>
          IVList (map (\<lambda>elt. case elt of IVTensor t \<Rightarrow> IVTensor (g t) | _ \<Rightarrow> elt) list)
      | IVTensorList list \<Rightarrow> IVTensorList (map g list)
      | _ \<Rightarrow> ivalue)"

text \<open>
  The tensors an argument holds: the argument itself, or the tensor elements of a list
  (the traversals look one level into a list, not deeper).
\<close>

definition tensors_of :: "IValue \<Rightarrow> Tensor list" where
  "tensors_of ivalue =
     (case ivalue of
        IVTensor t \<Rightarrow> [t]
      | IVList list \<Rightarrow> concat (map (\<lambda>elt. case elt of IVTensor t \<Rightarrow> [t] | _ \<Rightarrow> []) list)
      | IVTensorList list \<Rightarrow> list
      | _ \<Rightarrow> [])"

text \<open>
  What the traversal is meant to compute for a callable that may change the state and
  may throw.  \<open>apply_in_order\<close> applies it to a list of tensors from left to right, each
  application in the state the one before left, and stops at the first throw.  \<open>refill\<close>
  puts a list of tensors back into the places of the tensors of a list of arguments, in
  order, changing nothing else.  \<open>keeps_defined\<close> is the sanity check of the traversal: an
  argument that is a defined tensor is not replaced by the undefined tensor.
\<close>

fun apply_in_order ::
  "(Tensor \<Rightarrow> State \<Rightarrow> Tensor result) \<Rightarrow> Tensor list \<Rightarrow> State \<Rightarrow> (Tensor list) result" where
  "apply_in_order f [] s = (Inr [], s)"
| "apply_in_order f (t # ts) s =
     (case f t s of
        (Inl e, s1) \<Rightarrow> (Inl e, s1)
      | (Inr t', s1) \<Rightarrow>
          (case apply_in_order f ts s1 of
             (Inl e, s2) \<Rightarrow> (Inl e, s2)
           | (Inr ts', s2) \<Rightarrow> (Inr (t' # ts'), s2)))"

fun refill_elts :: "IValue list \<Rightarrow> Tensor list \<Rightarrow> IValue list" where
  "refill_elts [] ts = []"
| "refill_elts (IVTensor t # elts) (t' # ts) = IVTensor t' # refill_elts elts ts"
| "refill_elts (elt # elts) ts = elt # refill_elts elts ts"

definition refill_ivalue :: "IValue \<Rightarrow> Tensor list \<Rightarrow> IValue" where
  "refill_ivalue ivalue ts =
     (case ivalue of
        IVTensor t \<Rightarrow> (case ts of [] \<Rightarrow> ivalue | t' # rest \<Rightarrow> IVTensor t')
      | IVList list \<Rightarrow> IVList (refill_elts list ts)
      | IVTensorList list \<Rightarrow> IVTensorList (take (length list) ts)
      | _ \<Rightarrow> ivalue)"

fun refill :: "IValue list \<Rightarrow> Tensor list \<Rightarrow> IValue list" where
  "refill [] ts = []"
| "refill (ivalue # rest) ts =
     refill_ivalue ivalue (take (length (tensors_of ivalue)) ts)
     # refill rest (drop (length (tensors_of ivalue)) ts)"

definition keeps_defined :: "IValue \<Rightarrow> IValue \<Rightarrow> bool" where
  "keeps_defined ivalue ivalue' =
     (case ivalue of
        IVTensor t \<Rightarrow>
          (case ivalue' of IVTensor t' \<Rightarrow> defined t \<longrightarrow> defined t' | _ \<Rightarrow> True)
      | _ \<Rightarrow> True)"

text \<open>
  A computation that is handed the operation's boxed call uses it only on stacks and
  states that satisfy \<open>P\<close>: two calls that agree wherever \<open>P\<close> holds give the same run.
\<close>

definition calls_only_when ::
  "(IValue list \<Rightarrow> State \<Rightarrow> bool)
   \<Rightarrow> ((IValue list \<Rightarrow> State \<Rightarrow> stack_result) \<Rightarrow> stack_result) \<Rightarrow> bool" where
  "calls_only_when P run =
     (\<forall>c1 c2. (\<forall>stack s. P stack s \<longrightarrow> c1 stack s = c2 stack s) \<longrightarrow> run c1 = run c2)"

text \<open>
  The arguments of an operation are clean when the stack holds them all, none is a keyed
  dictionary, and no tensor among them carries a differentiation or a batching wrapper.
\<close>

definition no_wrapper :: "State \<Rightarrow> Tensor \<Rightarrow> bool" where
  "no_wrapper s t = (maybeGetTensorWrapper t s = None \<and> maybeGetBatchedImpl t s = None)"

definition arguments_clean :: "OperatorHandle \<Rightarrow> IValue list \<Rightarrow> State \<Rightarrow> bool" where
  "arguments_clean op stack s =
     (length (arguments (schema op)) \<le> length stack
      \<and> list_all (\<lambda>ivalue. \<not> isGenericDict ivalue \<and> list_all (no_wrapper s) (tensors_of ivalue))
           (last_n stack (length (arguments (schema op)))))"

text \<open>
  Two arguments are related through a relation on tensors: a tensor to a related tensor,
  a list to a list of the same length whose tensor elements are related and whose other
  elements are equal, a tensor list to a tensor list of related tensors in the same
  order, anything else only to itself.
\<close>

fun rel_elt :: "(Tensor \<Rightarrow> Tensor \<Rightarrow> bool) \<Rightarrow> IValue \<Rightarrow> IValue \<Rightarrow> bool" where
  "rel_elt R (IVTensor t) (IVTensor t') = R t t'"
| "rel_elt R (IVTensor t) e' = False"
| "rel_elt R e e' = (e' = e)"

fun rel_ivalue :: "(Tensor \<Rightarrow> Tensor \<Rightarrow> bool) \<Rightarrow> IValue \<Rightarrow> IValue \<Rightarrow> bool" where
  "rel_ivalue R (IVTensor t) (IVTensor t') = R t t'"
| "rel_ivalue R (IVTensor t) iv' = False"
| "rel_ivalue R (IVList list) (IVList list') = list_all2 (rel_elt R) list list'"
| "rel_ivalue R (IVList list) iv' = False"
| "rel_ivalue R (IVTensorList list) (IVTensorList list') = list_all2 R list list'"
| "rel_ivalue R (IVTensorList list) iv' = False"
| "rel_ivalue R iv iv' = (iv' = iv)"

text \<open>The store of tensor objects only grows: nothing else of the state changes.\<close>

definition heap_ext :: "State \<Rightarrow> State \<Rightarrow> bool" where
  "heap_ext s s' =
     (s' = s\<lparr>impls := impls s'\<rparr> \<and> take (length (impls s)) (impls s') = impls s)"

text \<open>A reference is valid when it is undefined or points into the store.\<close>

definition valid_ref :: "State \<Rightarrow> Tensor \<Rightarrow> bool" where
  "valid_ref s t = (case t of UndefinedTensor \<Rightarrow> True | TensorAt a \<Rightarrow> a < length (impls s))"

text \<open>
  A tensor with a dead wrapper taken off: if the tensor's object is a differentiation
  wrapper whose liveness cell does not hold true, the value the wrapper holds; in every
  other case the tensor itself.
\<close>

definition without_dead_wrapper :: "State \<Rightarrow> Tensor \<Rightarrow> Tensor" where
  "without_dead_wrapper s t =
     (case t of
        UndefinedTensor \<Rightarrow> t
      | TensorAt a \<Rightarrow>
          (if a < length (impls s) then
             (case impls s ! a of
                TensorWrapper v l h m \<Rightarrow> if h < length (life s) \<and> life s ! h then t else v
              | _ \<Rightarrow> t)
           else t))"

text \<open>
  What the normalization pass of the front interceptor needs of a tensor argument \<open>t\<close>.
  Let \<open>u\<close> be \<open>t\<close> with a dead wrapper taken off.  The store is well formed around \<open>t\<close>: \<open>t\<close>
  and \<open>u\<close> refer into the store, and a wrapper over a defined tensor is what \<open>t\<close> can only
  be if \<open>u\<close> is defined.  And, under a differentiation layer, a wrapper that \<open>u\<close> still
  carries is alive and is not above the level of the top layer.
\<close>

definition normalizable :: "State \<Rightarrow> Tensor \<Rightarrow> bool" where
  "normalizable s t =
     (let u = without_dead_wrapper s t; top = last (dynamicLayerStack s) in
      valid_ref s t \<and> valid_ref s u \<and> (defined t \<longrightarrow> defined u)
      \<and> (key top = Autograd \<longrightarrow>
           (case maybeGetTensorWrapper u s of
              None \<Rightarrow> True
            | Some w \<Rightarrow>
                (case TensorWrapper_level s w of
                   None \<Rightarrow> False
                 | Some l \<Rightarrow> l \<le> layerId top))))"

text \<open>
  What the pass makes of a tensor \<open>t\<close>, from the state \<open>s\<close> before the pass to the state
  \<open>s'\<close> after it.  Let \<open>u\<close> be \<open>t\<close> with a dead wrapper taken off.  If the top layer is not a
  differentiation layer, or \<open>u\<close> is undefined, or \<open>u\<close> is wrapped at the level of the top
  layer, the result is \<open>u\<close> itself.  Otherwise the result is a wrapper object that did not
  exist before, holding \<open>u\<close>, the level of the top layer and its liveness cell.
\<close>

definition normalized :: "State \<Rightarrow> State \<Rightarrow> Tensor \<Rightarrow> Tensor \<Rightarrow> bool" where
  "normalized s s' t t' =
     (let u = without_dead_wrapper s t; top = last (dynamicLayerStack s) in
      if key top \<noteq> Autograd \<or> \<not> defined u \<or> wrappedAtLevel s u (layerId top) then t' = u
      else
        (case t' of
           UndefinedTensor \<Rightarrow> False
         | TensorAt a \<Rightarrow>
             length (impls s) \<le> a
             \<and> impl_at s' a =
                 Some (TensorWrapper u (layerId top) (lifeHandle top) (metadata_of s u))))"

text \<open>
  A call made under key sets: the keys of \<open>include\<close> are added to the included set of the
  thread and those of \<open>exclude\<close> to its excluded set, the call is made, and the keys that
  were added are taken out again.
\<close>

definition under_key_sets ::
  "DispatchKeySet \<Rightarrow> DispatchKeySet \<Rightarrow> (State \<Rightarrow> stack_result) \<Rightarrow> State \<Rightarrow> stack_result" where
  "under_key_sets include exclude run s =
     (let tls = tls_local_dispatch_key_set s;
          r = run (s\<lparr>tls_local_dispatch_key_set :=
                      \<lparr>included = included tls \<union> include,
                       excluded = excluded tls \<union> exclude\<rparr>\<rparr>);
          tls' = tls_local_dispatch_key_set (snd r) in
      (fst r,
       (snd r)\<lparr>tls_local_dispatch_key_set :=
                 \<lparr>included = included tls' - (include - included tls),
                  excluded = excluded tls' - (exclude - excluded tls)\<rparr>\<rparr>))"

text \<open>
  The state in which the back interceptor calls the operation: the top layer popped, the
  key set reset and the two mode keys included, the autograd mode off if the layer
  recorded that it was off.
\<close>

definition redispatch_state :: "State \<Rightarrow> State" where
  "redispatch_state s =
     (let top = last (dynamicLayerStack s);
          s1 = snd (popDynamicLayer s);
          s2 = snd (resetFunctorchLocalDispatchKeySetRAII s1);
          s3 = setDynamicLayerFrontBackKeysIncluded True s2 in
      if key top = Autograd \<and> prevGradMode top = Some False
      then s3\<lparr>grad_mode := False\<rparr>
      else s3)"

text \<open>
  What the back interceptor's \<^verbatim>\<open>unwrap\<close> computes at a level: the inner value of a
  wrapper that is alive at exactly that level, the tensor itself otherwise.  A tensor is
  \<open>unwrappable\<close> when the assertions of \<^verbatim>\<open>unwrap\<close> and of the traversal hold for it: its
  wrapper, if any, is alive and not above the level, and does not hold the undefined
  tensor when it is at the level.
\<close>

definition unwrap_at :: "State \<Rightarrow> int \<Rightarrow> Tensor \<Rightarrow> Tensor" where
  "unwrap_at s cur t =
     (case maybeGetTensorWrapper t s of
        None \<Rightarrow> t
      | Some w \<Rightarrow> if TensorWrapper_level s w = Some cur then TensorWrapper_value s w else t)"

definition unwrappable :: "State \<Rightarrow> int \<Rightarrow> Tensor \<Rightarrow> bool" where
  "unwrappable s cur t =
     (case maybeGetTensorWrapper t s of
        None \<Rightarrow> True
      | Some w \<Rightarrow>
          (case TensorWrapper_level s w of
             None \<Rightarrow> False
           | Some l \<Rightarrow> l \<le> cur \<and> (l = cur \<longrightarrow> defined (TensorWrapper_value s w))))"

text \<open>
  A result \<open>t'\<close> is the tensor \<open>t\<close> re-wrapped: the undefined tensor stays; a defined
  tensor is replaced by a wrapper object that did not exist in \<open>s0\<close> and that holds \<open>t\<close>,
  the level \<open>cur\<close> and the liveness cell \<open>h\<close>.
\<close>

definition rewrapped :: "State \<Rightarrow> int \<Rightarrow> nat \<Rightarrow> State \<Rightarrow> Tensor \<Rightarrow> Tensor \<Rightarrow> bool" where
  "rewrapped s0 cur h s' t t' =
     (if defined t then
        (case t' of
           UndefinedTensor \<Rightarrow> False
         | TensorAt a \<Rightarrow>
             length (impls s0) \<le> a
             \<and> (case impl_at s' a of
                   Some (TensorWrapper v l h' m) \<Rightarrow> v = t \<and> l = cur \<and> h' = h
                 | _ \<Rightarrow> False))
      else t' = t)"




text \<open>
  A tensor is batched at a level when it carries a batching wrapper of that level.  Using
  the specialized rule of \<^verbatim>\<open>nll_loss_forward\<close> at a level means: with \<open>kBatchedKey\<close>
  excluded for the duration, call the rule on the inner values and the batch dimensions
  of \<open>self\<close> and \<open>target\<close>, and batch its two results at the level.
\<close>

definition batchedAtLevel :: "State \<Rightarrow> int \<Rightarrow> Tensor \<Rightarrow> bool" where
  "batchedAtLevel s level t =
     (case maybeGetBatchedImpl t s of
        None \<Rightarrow> False
      | Some b \<Rightarrow> BatchedTensorImpl_level s b = level)"

definition weight_unbatched :: "State \<Rightarrow> int \<Rightarrow> Tensor option \<Rightarrow> bool" where
  "weight_unbatched s level weight =
     (case weight of None \<Rightarrow> True | Some w \<Rightarrow> \<not> batchedAtLevel s level w)"

definition inner_value :: "State \<Rightarrow> Tensor \<Rightarrow> Tensor" where
  "inner_value s t =
     (case maybeGetBatchedImpl t s of
        None \<Rightarrow> t
      | Some b \<Rightarrow> BatchedTensorImpl_value s b)"

definition batch_dim :: "State \<Rightarrow> Tensor \<Rightarrow> int option" where
  "batch_dim s t =
     (case maybeGetBatchedImpl t s of
        None \<Rightarrow> None
      | Some b \<Rightarrow> Some (BatchedTensorImpl_bdim s b))"

definition batch_results ::
  "int \<Rightarrow> (Tensor \<times> int option \<times> Tensor \<times> int option) result \<Rightarrow> (Tensor \<times> Tensor) result" where
  "batch_results level r =
     (case r of
        (Inl e, s) \<Rightarrow> (Inl e, s)
      | (Inr (r0, b0, r1, b1), s) \<Rightarrow>
          (Inr (fst (makeBatched r0 b0 level s),
                fst (makeBatched r1 b1 level (snd (makeBatched r0 b0 level s)))),
           snd (makeBatched r1 b1 level (snd (makeBatched r0 b0 level s)))))"

definition with_excluded :: "DispatchKeySet \<Rightarrow> (State \<Rightarrow> 'a result) \<Rightarrow> State \<Rightarrow> 'a result" where
  "with_excluded ks run s =
     (let guard = fst (ExcludeDispatchKeyGuard_ctor ks s);
          r = run (snd (ExcludeDispatchKeyGuard_ctor ks s)) in
      (fst r, ExcludeDispatchKeyGuard_dtor guard (snd r)))"

definition use_batch_rule ::
  "ATen \<Rightarrow> int \<Rightarrow> Tensor \<Rightarrow> Tensor \<Rightarrow> int \<Rightarrow> State \<Rightarrow> (Tensor \<times> Tensor) result" where
  "use_batch_rule at level self target reduction s =
     with_excluded {kBatchedKey}
       (\<lambda>s1. batch_results level
                (nll_loss_forward_self_target_batch_rule at
                   (inner_value s self) (batch_dim s self)
                   (inner_value s target) (batch_dim s target) reduction s1)) s"

text \<open>
  What preserving the semantics of the unbatched operation means for a call on batched
  arguments.  The example of index \<open>i\<close> of an argument is the slice at \<open>i\<close>, along the batch
  dimension, of the inner value of a tensor batched at the level, and the argument
  itself otherwise.  The operation on one example is its call on the examples of the
  arguments.  The batched result is made of the results of the operation on the
  examples \<open>0, 1, \<dots>\<close> in this order, joined along a new first dimension that is the batch
  dimension at the level.
\<close>

definition example_of :: "ATen \<Rightarrow> int \<Rightarrow> nat \<Rightarrow> IValue \<Rightarrow> State \<Rightarrow> IValue result" where
  "example_of at level i ivalue s =
     (case ivalue of
        IVTensor t \<Rightarrow>
          if batchedAtLevel s level t
          then and_then (at_select at (inner_value s t) (the (batch_dim s t)) (int i) s)
                 (\<lambda>slice s1. (Inr (IVTensor slice), s1))
          else (Inr ivalue, s)
      | _ \<Rightarrow> (Inr ivalue, s))"

primrec examples_of ::
  "ATen \<Rightarrow> int \<Rightarrow> nat \<Rightarrow> IValue list \<Rightarrow> State \<Rightarrow> (IValue list) result" where
  "examples_of at level i [] s = (Inr [], s)"
| "examples_of at level i (ivalue # rest) s =
     and_then (example_of at level i ivalue s) (\<lambda>x s1.
     and_then (examples_of at level i rest s1) (\<lambda>xs s2. (Inr (x # xs), s2)))"

definition operation_on_example ::
  "ATen \<Rightarrow> OperatorHandle \<Rightarrow> int \<Rightarrow> IValue list \<Rightarrow> nat \<Rightarrow> State \<Rightarrow> (Tensor \<times> Tensor) result" where
  "operation_on_example at op level args i s =
     and_then (examples_of at level i args s) (\<lambda>xs s1.
       (case callBoxed op xs s1 of
          ((None, [IVTensor r0, IVTensor r1]), s2) \<Rightarrow> (Inr (r0, r1), s2)
        | ((None, stack1), s2) \<Rightarrow> (Inl InternalAssert, s2)
        | ((Some e, stack1), s2) \<Rightarrow> (Inl e, s2)))"

primrec operation_on_examples ::
  "ATen \<Rightarrow> OperatorHandle \<Rightarrow> int \<Rightarrow> IValue list \<Rightarrow> nat list \<Rightarrow> State
     \<Rightarrow> ((Tensor \<times> Tensor) list) result" where
  "operation_on_examples at op level args [] s = (Inr [], s)"
| "operation_on_examples at op level args (i # indices) s =
     and_then (operation_on_example at op level args i s) (\<lambda>r s1.
     and_then (operation_on_examples at op level args indices s1) (\<lambda>rs s2. (Inr (r # rs), s2)))"

definition joined_examples ::
  "ATen \<Rightarrow> OperatorHandle \<Rightarrow> int \<Rightarrow> nat \<Rightarrow> IValue list \<Rightarrow> State \<Rightarrow> (Tensor \<times> Tensor) result" where
  "joined_examples at op level batch_size args s =
     and_then (operation_on_examples at op level args [0 ..< batch_size] s) (\<lambda>rs s1.
     and_then (at_stack at (map fst rs) 0 s1) (\<lambda>out0 s2.
     and_then (at_stack at (map snd rs) 0 s2) (\<lambda>out1 s3.
       batch_results level (Inr (out0, Some 0, out1, Some 0), s3))))"
section \<open>Example configurations\<close>

text \<open>Concrete states and descriptors on which the theorems below are instantiated.\<close>

definition ex_tls :: LocalDispatchKeySet where
  "ex_tls = \<lparr>included = {ADInplaceOrView}, excluded = {}\<rparr>"

definition ex_state0 :: State where
  "ex_state0 = \<lparr>dynamicLayerStack = [], prev_local_keyset = None,
     tls_local_dispatch_key_set = ex_tls, grad_mode = True, life = [], impls = []\<rparr>"

definition ex_grad_layer :: "int \<Rightarrow> nat \<Rightarrow> DynamicLayer" where
  "ex_grad_layer lvl h = \<lparr>key = Autograd, layerId = lvl, batchSize = None,
     prevGradMode = Some True, lifeHandle = h\<rparr>"

definition ex_state1 :: State where
  "ex_state1 = \<lparr>dynamicLayerStack = [ex_grad_layer 1 0],
     prev_local_keyset = Some ex_tls,
     tls_local_dispatch_key_set =
       \<lparr>included = {kDynamicLayerBackModeKey, kDynamicLayerFrontModeKey, ADInplaceOrView},
        excluded = {}\<rparr>,
     grad_mode = True, life = [True], impls = []\<rparr>"

definition ex_meta :: TensorMeta where
  "ex_meta = \<lparr>sizes = [2, 3], strides = [3, 1], storage_offset = 0\<rparr>"

definition ex_state2 :: State where
  "ex_state2 = \<lparr>dynamicLayerStack = [ex_grad_layer 1 0, ex_grad_layer 2 1],
     prev_local_keyset = Some ex_tls,
     tls_local_dispatch_key_set =
       \<lparr>included = {kDynamicLayerBackModeKey, kDynamicLayerFrontModeKey, ADInplaceOrView},
        excluded = {}\<rparr>,
     grad_mode = True, life = [True, True],
     impls = [DenseImpl ex_meta,
              TensorWrapper (TensorAt 0) 1 0 ex_meta,
              TensorWrapper (TensorAt 1) 2 1 ex_meta]\<rparr>"

definition ex_add_inplace_schema :: FunctionSchema where
  "ex_add_inplace_schema =
     \<lparr>operator_name = ''aten::add_'',
      arguments = [\<lparr>alias_info = Some \<lparr>isWrite = True\<rparr>\<rparr>, \<lparr>alias_info = None\<rparr>],
      returns = [\<lparr>alias_info = Some \<lparr>isWrite = True\<rparr>\<rparr>]\<rparr>"

text \<open>An operation that pops its two arguments and returns the first.\<close>

definition ex_add_inplace :: OperatorHandle where
  "ex_add_inplace =
     \<lparr>schema = ex_add_inplace_schema,
      callBoxed = (\<lambda>stack s. ((None, butlast stack), s))\<rparr>"

text \<open>A function that returns the undefined tensor, and one that moves a reference.\<close>

definition ex_undefined_func :: "Tensor \<Rightarrow> State \<Rightarrow> Tensor result" where
  "ex_undefined_func t s = (Inr UndefinedTensor, s)"

definition ex_shift :: "Tensor \<Rightarrow> Tensor" where
  "ex_shift t = (case t of UndefinedTensor \<Rightarrow> UndefinedTensor | TensorAt a \<Rightarrow> TensorAt (a + 10))"

definition ex_shift_func :: "Tensor \<Rightarrow> State \<Rightarrow> Tensor result" where
  "ex_shift_func t s = (Inr (ex_shift t), s)"

definition ex_args :: "IValue list" where
  "ex_args = [IVInt 5, IVTensor (TensorAt 0), IVTensorList [TensorAt 1, UndefinedTensor],
              IVList [IVTensor (TensorAt 2), IVNone], IVTensor (TensorAt 3)]"

text \<open>A batching layer of batch size 4, over a plain tensor and a tensor batched at level 1.\<close>

definition ex_vmap_layer :: DynamicLayer where
  "ex_vmap_layer = \<lparr>key = kBatchedKey, layerId = 1, batchSize = Some 4,
     prevGradMode = None, lifeHandle = 0\<rparr>"


text \<open>An operation of two arguments and one result that aliases nothing.\<close>

definition ex_mul_schema :: FunctionSchema where
  "ex_mul_schema =
     \<lparr>operator_name = ''aten::mul'',
      arguments = [\<lparr>alias_info = None\<rparr>, \<lparr>alias_info = None\<rparr>],
      returns = [\<lparr>alias_info = None\<rparr>]\<rparr>"

definition ex_mul :: OperatorHandle where
  "ex_mul =
     \<lparr>schema = ex_mul_schema,
      callBoxed = (\<lambda>stack s. ((None, butlast stack), s))\<rparr>"

text \<open>
  The state in which a call re-issued by the back interceptor of the only layer reaches
  the front interceptor: the layer stack is empty, the snapshot is still saved.
\<close>

definition ex_state_popped :: State where
  "ex_state_popped = \<lparr>dynamicLayerStack = [],
     prev_local_keyset = Some ex_tls,
     tls_local_dispatch_key_set =
       \<lparr>included = {kDynamicLayerBackModeKey, kDynamicLayerFrontModeKey, ADInplaceOrView},
        excluded = {}\<rparr>,
     grad_mode = True, life = [True],
     impls = [DenseImpl ex_meta, TensorWrapper (TensorAt 0) 1 0 ex_meta]\<rparr>"

text \<open>
  A differentiation layer at level 1 whose liveness cell is cell 1; the wrapper at
  address 1 was stamped by an earlier layer whose cell (cell 0) is now false.
\<close>

definition ex_state_dead :: State where
  "ex_state_dead = \<lparr>dynamicLayerStack = [ex_grad_layer 1 1],
     prev_local_keyset = Some ex_tls,
     tls_local_dispatch_key_set =
       \<lparr>included = {kDynamicLayerBackModeKey, kDynamicLayerFrontModeKey, ADInplaceOrView},
        excluded = {}\<rparr>,
     grad_mode = True, life = [False, True],
     impls = [DenseImpl ex_meta, TensorWrapper (TensorAt 0) 1 0 ex_meta]\<rparr>"

text \<open>
  An operation without arguments and results whose call fails unless the key set in
  force is the saved snapshot.
\<close>

definition ex_probe_call :: "IValue list \<Rightarrow> State \<Rightarrow> stack_result" where
  "ex_probe_call stack s =
     (if Some (tls_local_dispatch_key_set s) = prev_local_keyset s then ((None, stack), s)
      else ((Some (OpError 1), stack), s))"

definition ex_probe :: OperatorHandle where
  "ex_probe =
     \<lparr>schema = \<lparr>operator_name = ''probe'', arguments = [], returns = []\<rparr>,
      callBoxed = ex_probe_call\<rparr>"


text \<open>
  An in-place operation of one argument: it transposes the tensor on top of the stack by
  rewriting the metadata of its object, and returns that tensor.
\<close>

definition ex_meta_t :: TensorMeta where
  "ex_meta_t = \<lparr>sizes = [3, 2], strides = [1, 3], storage_offset = 0\<rparr>"

definition set_meta :: "TensorMeta \<Rightarrow> TensorImpl \<Rightarrow> TensorImpl" where
  "set_meta m impl =
     (case impl of
        DenseImpl m0 \<Rightarrow> DenseImpl m
      | TensorWrapper v l h m0 \<Rightarrow> TensorWrapper v l h m
      | BatchedTensorImpl v d l m0 \<Rightarrow> BatchedTensorImpl v d l m)"

definition ex_t_inplace_call :: "IValue list \<Rightarrow> State \<Rightarrow> stack_result" where
  "ex_t_inplace_call stack s =
     (if stack = [] then ((Some (OpError 2), stack), s)
      else
        (case last stack of
           IVTensor (TensorAt a) \<Rightarrow>
             if a < length (impls s)
             then ((None, stack), s\<lparr>impls := (impls s)[a := set_meta ex_meta_t (impls s ! a)]\<rparr>)
             else ((Some (OpError 2), stack), s)
         | _ \<Rightarrow> ((Some (OpError 2), stack), s)))"

definition ex_t_inplace :: OperatorHandle where
  "ex_t_inplace =
     \<lparr>schema = \<lparr>operator_name = ''aten::t_'',
                arguments = [\<lparr>alias_info = Some \<lparr>isWrite = True\<rparr>\<rparr>],
                returns = [\<lparr>alias_info = Some \<lparr>isWrite = True\<rparr>\<rparr>]\<rparr>,
      callBoxed = ex_t_inplace_call\<rparr>"

text \<open>
  A batching layer at level 1 over \<open>self\<close> (address 1, inner value of shape 4 x 5 x 3
  batched along dimension 0), \<open>target\<close> (address 3, inner value of shape 4 x 5) and a
  plain weight (address 4).
\<close>

definition ex_dense :: "int list \<Rightarrow> TensorImpl" where
  "ex_dense shape = DenseImpl \<lparr>sizes = shape, strides = [], storage_offset = 0\<rparr>"

definition ex_state_loss :: State where
  "ex_state_loss = \<lparr>dynamicLayerStack = [ex_vmap_layer],
     prev_local_keyset = Some ex_tls,
     tls_local_dispatch_key_set =
       \<lparr>included = {kDynamicLayerBackModeKey, kDynamicLayerFrontModeKey, FuncTorchVmapMode},
        excluded = {}\<rparr>,
     grad_mode = True, life = [True],
     impls = [ex_dense [4, 5, 3],
              BatchedTensorImpl (TensorAt 0) 0 1 \<lparr>sizes = [5, 3], strides = [], storage_offset = 0\<rparr>,
              ex_dense [4, 5],
              BatchedTensorImpl (TensorAt 2) 0 1 \<lparr>sizes = [5], strides = [], storage_offset = 0\<rparr>,
              ex_dense [3]]\<rparr>"

text \<open>
  A stand-in for the tensor library: dimensions and sizes are read from the metadata,
  the kernels of the rule return their first tensor argument, the slice of a tensor is
  a new tensor without the dimension, and the join of tensors is a new tensor with one
  more dimension in front.  The stand-in for the operation returns its first two
  arguments.
\<close>

definition ex_size :: "Tensor \<Rightarrow> int \<Rightarrow> State \<Rightarrow> int result" where
  "ex_size t d s =
     (let shape = sizes (metadata_of s t);
          i = (if d < 0 then d + int (length shape) else d) in
      if 0 \<le> i \<and> i < int (length shape) then (Inr (shape ! nat i), s)
      else (Inl (OpError 3), s))"

definition ex_select :: "Tensor \<Rightarrow> int \<Rightarrow> int \<Rightarrow> State \<Rightarrow> Tensor result" where
  "ex_select t d i s =
     (let shape = sizes (metadata_of s t) in
      (Inr (TensorAt (length (impls s))),
       s\<lparr>impls := impls s @ [ex_dense (take (nat d) shape @ drop (Suc (nat d)) shape)]\<rparr>))"

definition ex_stack :: "Tensor list \<Rightarrow> int \<Rightarrow> State \<Rightarrow> Tensor result" where
  "ex_stack ts d s =
     (case ts of
        [] \<Rightarrow> (Inl (OpError 6), s)
      | t # rest \<Rightarrow>
          (Inr (TensorAt (length (impls s))),
           s\<lparr>impls := impls s @ [ex_dense (int (length ts) # sizes (metadata_of s t))]\<rparr>))"

definition ex_nll_loss_forward :: OperatorHandle where
  "ex_nll_loss_forward =
     \<lparr>schema = \<lparr>operator_name = ''aten::nll_loss_forward'',
                arguments = [\<lparr>alias_info = None\<rparr>, \<lparr>alias_info = None\<rparr>, \<lparr>alias_info = None\<rparr>,
                             \<lparr>alias_info = None\<rparr>, \<lparr>alias_info = None\<rparr>],
                returns = [\<lparr>alias_info = None\<rparr>, \<lparr>alias_info = None\<rparr>]\<rparr>,
      callBoxed = (\<lambda>stack s. ((None, take 2 stack), s))\<rparr>"

definition ex_aten :: ATen where
  "ex_aten =
     \<lparr>tensor_dim = (\<lambda>t s. (Inr (int (length (sizes (metadata_of s t)))), s)),
      tensor_size = ex_size,
      reshape_dim_into = (\<lambda>src dst t s. (Inr t, s)),
      reshape_dim_outof = (\<lambda>dim size1 t s. (Inr t, s)),
      at_nll_loss_forward = (\<lambda>self target weight reduction ignore_index s. (Inr (self, target), s)),
      new_full = (\<lambda>t shape fill s. (Inr t, s)),
      tensor_sum = (\<lambda>t d s. (Inr t, s)),
      tensor_mean = (\<lambda>t d s. (Inr t, s)),
      at_select = ex_select,
      at_stack = ex_stack,
      findSchema = (\<lambda>name overload_name.
                      if name = ''aten::nll_loss_forward'' \<and> overload_name = ''''
                      then Some ex_nll_loss_forward else None)\<rparr>"

text \<open>
  A differentiation layer at level 1 with liveness cell 2, over a tensor whose wrapper
  (address 2) is dead and holds a tensor whose wrapper (address 1) is dead too: both
  were stamped by layers that have gone.
\<close>

definition ex_state_dead_dead :: State where
  "ex_state_dead_dead = \<lparr>dynamicLayerStack = [ex_grad_layer 1 2],
     prev_local_keyset = Some ex_tls,
     tls_local_dispatch_key_set =
       \<lparr>included = {kDynamicLayerBackModeKey, kDynamicLayerFrontModeKey, ADInplaceOrView},
        excluded = {}\<rparr>,
     grad_mode = True, life = [False, False, True],
     impls = [DenseImpl ex_meta,
              TensorWrapper (TensorAt 0) 1 0 ex_meta,
              TensorWrapper (TensorAt 1) 2 1 ex_meta]\<rparr>"

text \<open>
  A differentiation layer at level 1 over a tensor whose wrapper is alive and stamped
  with level 2: the state in which a call re-issued under a popped layer 2 meets a
  tensor of that layer.
\<close>

definition ex_state_escaped :: State where
  "ex_state_escaped = \<lparr>dynamicLayerStack = [ex_grad_layer 1 0],
     prev_local_keyset = Some ex_tls,
     tls_local_dispatch_key_set =
       \<lparr>included = {kDynamicLayerBackModeKey, kDynamicLayerFrontModeKey, ADInplaceOrView},
        excluded = {}\<rparr>,
     grad_mode = True, life = [True, True],
     impls = [DenseImpl ex_meta, TensorWrapper (TensorAt 0) 2 1 ex_meta]\<rparr>"

section \<open>Properties of the layer stack\<close>

lemma levels_ok_snoc:
  "levels_ok (dls @ [l]) = (levels_ok dls \<and> layerId l = 1 + int (length dls))"
  by (auto simp: levels_ok_def)

lemma levels_ok_nth:
  assumes "levels_ok dls" and "i < length dls"
  shows "layerId (dls ! i) = int i + 1"
proof -
  have "layerId (dls ! i) = map layerId dls ! i" using assms(2) by simp
  also have "\<dots> = map int [1 ..< Suc (length dls)] ! i"
    using assms(1) by (simp add: levels_ok_def)
  also have "\<dots> = int i + 1" using assms(2) by (simp del: upt_Suc)
  finally show ?thesis .
qed

lemma levels_ok_butlast: "levels_ok dls \<Longrightarrow> levels_ok (butlast dls)"
  by (cases dls rule: rev_cases) (auto simp: levels_ok_snoc levels_ok_def)

lemma levels_ok_last:
  "levels_ok dls \<Longrightarrow> dls \<noteq> [] \<Longrightarrow> layerId (last dls) = int (length dls)"
  by (cases dls rule: rev_cases) (auto simp: levels_ok_snoc)

lemma push_stack:
  "layerId l = 1 + int (length (dynamicLayerStack s)) \<Longrightarrow>
   dynamicLayerStack (snd (pushDynamicLayer l s)) = dynamicLayerStack s @ [l]"
  by (simp add: pushDynamicLayer_def Let_def setDynamicLayerFrontBackKeysIncluded_def
      tls_set_dispatch_key_included_def)

lemma push_mismatch:
  "layerId l \<noteq> 1 + int (length (dynamicLayerStack s)) \<Longrightarrow>
   pushDynamicLayer l s = (Inl InternalAssert, s)"
  by (auto simp add: pushDynamicLayer_def Let_def)

lemma push_returns:
  "layerId l = 1 + int (length (dynamicLayerStack s)) \<Longrightarrow>
   dynamicLayerStack s \<noteq> [] \<or> prev_local_keyset s \<noteq> None \<Longrightarrow>
   fst (pushDynamicLayer l s) = Inr (1 + int (length (dynamicLayerStack s)))"
  by (auto simp add: pushDynamicLayer_def Let_def)

lemma push_Inr:
  "pushDynamicLayer l s = (Inr n, s') \<Longrightarrow>
   n = layerId l \<and> n = 1 + int (length (dynamicLayerStack s))"
  by (auto simp add: pushDynamicLayer_def Let_def split: if_splits)

lemma push_levels_ok:
  "levels_ok (dynamicLayerStack s) \<Longrightarrow>
   levels_ok (dynamicLayerStack (snd (pushDynamicLayer l s)))"
  by (cases "layerId l = 1 + int (length (dynamicLayerStack s))")
     (simp_all add: push_stack levels_ok_snoc push_mismatch)

lemma initAndPush_Inr:
  assumes "initAndPushDynamicLayer k b p s = (Inr n, s')"
  shows "n = 1 + int (length (dynamicLayerStack s)) \<and>
         (\<exists>l. dynamicLayerStack s' = dynamicLayerStack s @ [l] \<and> layerId l = n \<and> key l = k)"
proof -
  let ?s1 = "if length (dynamicLayerStack s) = 0
             then s\<lparr>prev_local_keyset := Some (tls_local_dispatch_key_set s)\<rparr> else s"
  let ?s2 = "?s1\<lparr>life := life ?s1 @ [True]\<rparr>"
  let ?l = "\<lparr>key = k, layerId = 1 + int (length (dynamicLayerStack s)), batchSize = b,
             prevGradMode = p, lifeHandle = length (life ?s1)\<rparr>"
  have len: "dynamicLayerStack ?s2 = dynamicLayerStack s" by simp
  from assms have push: "pushDynamicLayer ?l ?s2 = (Inr n, s')"
    by (auto simp add: initAndPushDynamicLayer_def DynamicLayer_ctor_def Let_def
        split: if_splits)
  from push_Inr[OF push] have n: "n = 1 + int (length (dynamicLayerStack s))"
    by simp
  have "dynamicLayerStack (snd (pushDynamicLayer ?l ?s2)) = dynamicLayerStack ?s2 @ [?l]"
    by (rule push_stack) simp
  with push have "dynamicLayerStack s' = dynamicLayerStack s @ [?l]" by simp
  with n show ?thesis by auto
qed

text \<open>
  Claim C2.  A push whose descriptor carries a level other than 1 + the depth of the
  stack fails an internal assertion and changes nothing.  A push with the right level
  appends the descriptor, and returns that level unless the stack was empty and no
  snapshot of the key set had been taken.  Whatever \<open>pushDynamicLayer\<close> or
  \<open>initAndPushDynamicLayer\<close> returns is 1 + the depth before the push, and it is the level
  of the descriptor now on top.  So the invariant \<open>levels_ok\<close> is kept by every push, and
  under it the levels strictly increase from bottom to top and the level of the top
  descriptor is the size of the stack.
\<close>

theorem pushDynamicLayer_level:
  "(layerId l \<noteq> 1 + int (length (dynamicLayerStack s)) \<longrightarrow>
      pushDynamicLayer l s = (Inl InternalAssert, s))
   \<and> (layerId l = 1 + int (length (dynamicLayerStack s)) \<longrightarrow>
        dynamicLayerStack (snd (pushDynamicLayer l s)) = dynamicLayerStack s @ [l]
        \<and> (dynamicLayerStack s \<noteq> [] \<or> prev_local_keyset s \<noteq> None \<longrightarrow>
             fst (pushDynamicLayer l s) = Inr (1 + int (length (dynamicLayerStack s)))))
   \<and> (\<forall>n s'. pushDynamicLayer l s = (Inr n, s') \<longrightarrow>
        n = layerId l \<and> n = 1 + int (length (dynamicLayerStack s)))
   \<and> (\<forall>n s'. initAndPushDynamicLayer k b p s = (Inr n, s') \<longrightarrow>
        n = 1 + int (length (dynamicLayerStack s)) \<and>
        (\<exists>l'. dynamicLayerStack s' = dynamicLayerStack s @ [l'] \<and> layerId l' = n \<and> key l' = k))
   \<and> (levels_ok (dynamicLayerStack s) \<longrightarrow>
        levels_ok (dynamicLayerStack (snd (pushDynamicLayer l s)))
        \<and> (\<forall>i j. i < j \<and> j < length (dynamicLayerStack s) \<longrightarrow>
            layerId (dynamicLayerStack s ! i) < layerId (dynamicLayerStack s ! j))
        \<and> (dynamicLayerStack s \<noteq> [] \<longrightarrow>
             layerId (last (dynamicLayerStack s)) = int (length (dynamicLayerStack s))))"
proof (intro conjI impI allI)
  fix i j
  assume ok: "levels_ok (dynamicLayerStack s)"
    and ij: "i < j \<and> j < length (dynamicLayerStack s)"
  then show "layerId (dynamicLayerStack s ! i) < layerId (dynamicLayerStack s ! j)"
    by (simp add: levels_ok_nth)
qed (simp_all add: push_mismatch push_stack push_returns push_Inr push_levels_ok
      levels_ok_last initAndPush_Inr)

theorem pushDynamicLayer_level_witness:
  "pushDynamicLayer (ex_grad_layer 5 0) ex_state0 = (Inl InternalAssert, ex_state0)
   \<and> levels_ok (dynamicLayerStack ex_state0)
   \<and> levels_ok (dynamicLayerStack (snd (pushDynamicLayer (ex_grad_layer 1 0) ex_state0)))
   \<and> dynamicLayerStack (snd (pushDynamicLayer (ex_grad_layer 1 0) ex_state0)) = [ex_grad_layer 1 0]"
  using pushDynamicLayer_level [of "ex_grad_layer 5 0" ex_state0]
    pushDynamicLayer_level [of "ex_grad_layer 1 0" ex_state0]
  by (simp add: ex_grad_layer_def ex_state0_def levels_ok_def)

lemma pop_empty:
  "dynamicLayerStack s = [] \<Longrightarrow> popDynamicLayerAndDeleteMetadata s = (Inl InternalAssert, s)"
  by (simp add: popDynamicLayerAndDeleteMetadata_def popDynamicLayer_def)

lemma popDynamicLayer_ok:
  assumes "dynamicLayerStack s \<noteq> []" and "key (last (dynamicLayerStack s)) \<noteq> Undefined"
  shows "popDynamicLayer s =
     (Inr (last (dynamicLayerStack s)),
      if butlast (dynamicLayerStack s) = []
      then setDynamicLayerFrontBackKeysIncluded False
             (s\<lparr>dynamicLayerStack := butlast (dynamicLayerStack s)\<rparr>)
      else s\<lparr>dynamicLayerStack := butlast (dynamicLayerStack s)\<rparr>)"
  using assms by (simp add: popDynamicLayer_def Let_def)

lemma setFrontBack_fields [simp]:
  "dynamicLayerStack (setDynamicLayerFrontBackKeysIncluded b s) = dynamicLayerStack s"
  "prev_local_keyset (setDynamicLayerFrontBackKeysIncluded b s) = prev_local_keyset s"
  "grad_mode (setDynamicLayerFrontBackKeysIncluded b s) = grad_mode s"
  "life (setDynamicLayerFrontBackKeysIncluded b s) = life s"
  "impls (setDynamicLayerFrontBackKeysIncluded b s) = impls s"
  by (simp_all add: setDynamicLayerFrontBackKeysIncluded_def tls_set_dispatch_key_included_def
      Let_def)

lemma setFrontBack_included:
  "included (tls_local_dispatch_key_set (setDynamicLayerFrontBackKeysIncluded b s)) =
     (if b then included (tls_local_dispatch_key_set s)
                \<union> {kDynamicLayerFrontModeKey, kDynamicLayerBackModeKey}
      else included (tls_local_dispatch_key_set s)
                - {kDynamicLayerFrontModeKey, kDynamicLayerBackModeKey})"
  "excluded (tls_local_dispatch_key_set (setDynamicLayerFrontBackKeysIncluded b s)) =
     excluded (tls_local_dispatch_key_set s)"
  by (auto simp add: setDynamicLayerFrontBackKeysIncluded_def tls_set_dispatch_key_included_def
      Let_def)

lemma pop_nonempty:
  assumes "dynamicLayerStack s \<noteq> []" and "key (last (dynamicLayerStack s)) \<noteq> Undefined"
  shows "\<exists>s'. popDynamicLayerAndDeleteMetadata s = (Inr (last (dynamicLayerStack s)), s')
     \<and> dynamicLayerStack s' = butlast (dynamicLayerStack s)
     \<and> life s' = (life s)[lifeHandle (last (dynamicLayerStack s)) := False]
     \<and> impls s' = impls s \<and> grad_mode s' = grad_mode s
     \<and> (butlast (dynamicLayerStack s) = [] \<longrightarrow>
          prev_local_keyset s' = None \<and> \<not> areTransformsActive s'
          \<and> kDynamicLayerFrontModeKey \<notin> included (tls_local_dispatch_key_set s'))
     \<and> (butlast (dynamicLayerStack s) \<noteq> [] \<longrightarrow>
          prev_local_keyset s' = prev_local_keyset s
          \<and> tls_local_dispatch_key_set s' = tls_local_dispatch_key_set s)"
  using assms
  by (simp add: popDynamicLayerAndDeleteMetadata_def popDynamicLayer_ok Let_def
      areTransformsActive_def setFrontBack_included)

lemma life_mono_update:
  "h < length xs \<Longrightarrow> (xs[i := False]) ! h \<Longrightarrow> xs ! h"
  by (cases "h = i") simp_all

lemma popAndDelete_life:
  "h < length (life s) \<Longrightarrow> life (snd (popDynamicLayerAndDeleteMetadata s)) ! h \<Longrightarrow> life s ! h"
  by (auto simp add: popDynamicLayerAndDeleteMetadata_def popDynamicLayer_def Let_def
      split: if_splits dest: life_mono_update)

lemma popDynamicLayer_life: "life (snd (popDynamicLayer s)) = life s"
  by (simp add: popDynamicLayer_def Let_def)

lemma pushDynamicLayer_life: "life (snd (pushDynamicLayer l s)) = life s"
  by (simp add: pushDynamicLayer_def Let_def)

lemma initAndPush_life:
  "h < length (life s) \<Longrightarrow> life (snd (initAndPushDynamicLayer k b p s)) ! h = life s ! h"
  by (simp add: initAndPushDynamicLayer_def DynamicLayer_ctor_def Let_def
      pushDynamicLayer_life nth_append split: prod.splits sum.splits)

text \<open>
  Claim C7.  \<open>popDynamicLayerAndDeleteMetadata\<close> on an empty stack fails an internal
  assertion.  On a non-empty stack whose top descriptor has a key other than
  \<open>Undefined\<close> it returns the top descriptor and removes it, sets that descriptor's
  liveness cell to false, and, when the stack has become empty, clears the saved key-set
  snapshot and takes the front and back mode keys out of the included set (transforms
  are no longer active); otherwise snapshot and key set stay.  No operation of the layer
  stack turns a false liveness cell true again.
\<close>

theorem popDynamicLayerAndDeleteMetadata_spec:
  "(dynamicLayerStack s = [] \<longrightarrow>
      popDynamicLayerAndDeleteMetadata s = (Inl InternalAssert, s))
   \<and> (dynamicLayerStack s \<noteq> [] \<and> key (last (dynamicLayerStack s)) \<noteq> Undefined \<longrightarrow>
        (\<exists>s'. popDynamicLayerAndDeleteMetadata s = (Inr (last (dynamicLayerStack s)), s')
           \<and> dynamicLayerStack s' = butlast (dynamicLayerStack s)
           \<and> life s' = (life s)[lifeHandle (last (dynamicLayerStack s)) := False]
           \<and> (lifeHandle (last (dynamicLayerStack s)) < length (life s) \<longrightarrow>
                \<not> life s' ! lifeHandle (last (dynamicLayerStack s)))
           \<and> (butlast (dynamicLayerStack s) = [] \<longrightarrow>
                prev_local_keyset s' = None \<and> \<not> areTransformsActive s'
                \<and> kDynamicLayerFrontModeKey \<notin> included (tls_local_dispatch_key_set s'))
           \<and> (butlast (dynamicLayerStack s) \<noteq> [] \<longrightarrow>
                prev_local_keyset s' = prev_local_keyset s
                \<and> tls_local_dispatch_key_set s' = tls_local_dispatch_key_set s)))
   \<and> (\<forall>h. h < length (life s) \<and> \<not> life s ! h \<longrightarrow>
        \<not> life (snd (popDynamicLayerAndDeleteMetadata s)) ! h
        \<and> \<not> life (snd (popDynamicLayer s)) ! h
        \<and> \<not> life (snd (pushDynamicLayer l s)) ! h
        \<and> \<not> life (snd (initAndPushDynamicLayer k b p s)) ! h)"
proof (intro conjI impI allI)
  assume "dynamicLayerStack s = []"
  then show "popDynamicLayerAndDeleteMetadata s = (Inl InternalAssert, s)"
    by (rule pop_empty)
next
  assume a: "dynamicLayerStack s \<noteq> [] \<and> key (last (dynamicLayerStack s)) \<noteq> Undefined"
  from pop_nonempty[of s] a
  obtain s' where s': "popDynamicLayerAndDeleteMetadata s = (Inr (last (dynamicLayerStack s)), s')"
     "dynamicLayerStack s' = butlast (dynamicLayerStack s)"
     "life s' = (life s)[lifeHandle (last (dynamicLayerStack s)) := False]"
     "butlast (dynamicLayerStack s) = [] \<longrightarrow>
          prev_local_keyset s' = None \<and> \<not> areTransformsActive s'
          \<and> kDynamicLayerFrontModeKey \<notin> included (tls_local_dispatch_key_set s')"
     "butlast (dynamicLayerStack s) \<noteq> [] \<longrightarrow>
          prev_local_keyset s' = prev_local_keyset s
          \<and> tls_local_dispatch_key_set s' = tls_local_dispatch_key_set s"
    by blast
  show "\<exists>s'. popDynamicLayerAndDeleteMetadata s = (Inr (last (dynamicLayerStack s)), s')
           \<and> dynamicLayerStack s' = butlast (dynamicLayerStack s)
           \<and> life s' = (life s)[lifeHandle (last (dynamicLayerStack s)) := False]
           \<and> (lifeHandle (last (dynamicLayerStack s)) < length (life s) \<longrightarrow>
                \<not> life s' ! lifeHandle (last (dynamicLayerStack s)))
           \<and> (butlast (dynamicLayerStack s) = [] \<longrightarrow>
                prev_local_keyset s' = None \<and> \<not> areTransformsActive s'
                \<and> kDynamicLayerFrontModeKey \<notin> included (tls_local_dispatch_key_set s'))
           \<and> (butlast (dynamicLayerStack s) \<noteq> [] \<longrightarrow>
                prev_local_keyset s' = prev_local_keyset s
                \<and> tls_local_dispatch_key_set s' = tls_local_dispatch_key_set s)"
    using s' by (intro exI[of _ s']) simp
next
  fix h assume h: "h < length (life s) \<and> \<not> life s ! h"
  then show "\<not> life (snd (popDynamicLayerAndDeleteMetadata s)) ! h"
    using popAndDelete_life[of h s] by blast
  from h show "\<not> life (snd (popDynamicLayer s)) ! h" by (simp add: popDynamicLayer_life)
  from h show "\<not> life (snd (pushDynamicLayer l s)) ! h" by (simp add: pushDynamicLayer_life)
  from h show "\<not> life (snd (initAndPushDynamicLayer k b p s)) ! h"
    by (simp add: initAndPush_life)
qed

theorem popDynamicLayerAndDeleteMetadata_spec_witness:
  "popDynamicLayerAndDeleteMetadata ex_state0 = (Inl InternalAssert, ex_state0)
   \<and> popDynamicLayerAndDeleteMetadata ex_state1 =
       (Inr (ex_grad_layer 1 0), ex_state0\<lparr>life := [False]\<rparr>)
   \<and> \<not> life (snd (initAndPushDynamicLayer Autograd None (Some True) (ex_state0\<lparr>life := [False]\<rparr>))) ! 0"
  using popDynamicLayerAndDeleteMetadata_spec [of ex_state0]
    popDynamicLayerAndDeleteMetadata_spec [of ex_state1]
    popDynamicLayerAndDeleteMetadata_spec [of "ex_state0\<lparr>life := [False]\<rparr>" _ Autograd None "Some True"]
  by (simp add: ex_state0_def ex_state1_def ex_grad_layer_def ex_tls_def insert_Diff_if
      popDynamicLayerAndDeleteMetadata_def popDynamicLayer_def Let_def
      setDynamicLayerFrontBackKeysIncluded_def tls_set_dispatch_key_included_def
      initAndPushDynamicLayer_def DynamicLayer_ctor_def pushDynamicLayer_def)

section \<open>The mutation check\<close>

lemma check_wrapped:
  assumes "dls \<noteq> []" "key (last dls) = Autograd" "isInplaceOp (schema op)"
    "length (arguments (schema op)) \<le> length stack"
    "last_n stack (length (arguments (schema op))) ! 0 = IVTensor t"
  shows "checkForInvalidMutationOnCaptures op stack dls s =
     (if wrappedAtLevel s (unwrapIfDead t s) (layerId (last dls)) then None
      else Some (MutationError (operator_name (schema op))))"
  using assms
  by (auto simp add: checkForInvalidMutationOnCaptures_def wrappedAtLevel_def Let_def
      split: option.splits)

text \<open>
  Claim C1.  The layer stack is not empty, its top layer is a differentiation layer, the
  schema is that of an in-place operation on its first argument, and the first argument
  on the stack is a tensor.  If that tensor, after a dead wrapper has been taken off, is
  not wrapped at the level of the top layer, the mutation check returns the mutation
  error naming the operator, and the front interceptor returns that error with the
  argument stack and the whole state (the layer stack included) unchanged, whatever the
  operation's boxed call would do: the operation is not called.  If the tensor is wrapped
  at the level of the top layer, the check raises nothing.
\<close>

theorem checkForInvalidMutationOnCaptures_spec:
  assumes "dynamicLayerStack s \<noteq> []"
    and "key (last (dynamicLayerStack s)) = Autograd"
    and "isInplaceOp (schema op)"
    and "length (arguments (schema op)) \<le> length stack"
    and "last_n stack (length (arguments (schema op))) ! 0 = IVTensor t"
  shows "(\<not> wrappedAtLevel s (unwrapIfDead t s) (layerId (last (dynamicLayerStack s))) \<longrightarrow>
           checkForInvalidMutationOnCaptures op stack (dynamicLayerStack s) s =
             Some (MutationError (operator_name (schema op)))
           \<and> (\<forall>call. dynamicLayerFrontFallback (op\<lparr>callBoxed := call\<rparr>) stack s =
                 ((Some (MutationError (operator_name (schema op))), stack), s)))
       \<and> (wrappedAtLevel s (unwrapIfDead t s) (layerId (last (dynamicLayerStack s))) \<longrightarrow>
           checkForInvalidMutationOnCaptures op stack (dynamicLayerStack s) s = None)"
proof -
  have chk: "\<And>call. checkForInvalidMutationOnCaptures (op\<lparr>callBoxed := call\<rparr>) stack
                  (dynamicLayerStack s) s =
     (if wrappedAtLevel s (unwrapIfDead t s) (layerId (last (dynamicLayerStack s))) then None
      else Some (MutationError (operator_name (schema op))))"
    using assms check_wrapped[of "dynamicLayerStack s" "op\<lparr>callBoxed := _\<rparr>" stack t s]
    by simp
  have chk0: "checkForInvalidMutationOnCaptures op stack (dynamicLayerStack s) s =
     (if wrappedAtLevel s (unwrapIfDead t s) (layerId (last (dynamicLayerStack s))) then None
      else Some (MutationError (operator_name (schema op))))"
    using assms by (rule check_wrapped)
  show ?thesis
    using assms(1) by (simp add: chk chk0 dynamicLayerFrontFallback_def)
qed


lemma ex_isInplaceOp: "isInplaceOp (schema ex_add_inplace)"
  by (simp add: ex_add_inplace_def ex_add_inplace_schema_def isInplaceOp_def is_mutable_def)

lemma ex2_wrapped:
  "\<not> wrappedAtLevel ex_state2 (unwrapIfDead (TensorAt 1) ex_state2) 2"
  "wrappedAtLevel ex_state2 (unwrapIfDead (TensorAt 2) ex_state2) 2"
  by (simp_all add: wrappedAtLevel_def unwrapIfDead_def maybeGetTensorWrapper_def impl_at_def
      ex_state2_def is_alive_def TensorWrapper_level_def TensorWrapper_value_def)

theorem checkForInvalidMutationOnCaptures_spec_witness:
  "dynamicLayerFrontFallback ex_add_inplace [IVTensor (TensorAt 1), IVTensor (TensorAt 2)] ex_state2
     = ((Some (MutationError ''aten::add_''), [IVTensor (TensorAt 1), IVTensor (TensorAt 2)]), ex_state2)
   \<and> checkForInvalidMutationOnCaptures ex_add_inplace [IVTensor (TensorAt 2), IVTensor (TensorAt 1)]
        (dynamicLayerStack ex_state2) ex_state2 = None"
proof -
  have a: "dynamicLayerStack ex_state2 \<noteq> []" "key (last (dynamicLayerStack ex_state2)) = Autograd"
    "layerId (last (dynamicLayerStack ex_state2)) = 2"
    by (simp_all add: ex_state2_def ex_grad_layer_def)
  have n: "length (arguments (schema ex_add_inplace)) = 2"
    "operator_name (schema ex_add_inplace) = ''aten::add_''"
    by (simp_all add: ex_add_inplace_def ex_add_inplace_schema_def)
  have cb: "ex_add_inplace\<lparr>callBoxed := callBoxed ex_add_inplace\<rparr> = ex_add_inplace"
    by simp
  from checkForInvalidMutationOnCaptures_spec
         [OF a(1) a(2) ex_isInplaceOp, of "[IVTensor (TensorAt 1), IVTensor (TensorAt 2)]" "TensorAt 1"]
       checkForInvalidMutationOnCaptures_spec
         [OF a(1) a(2) ex_isInplaceOp, of "[IVTensor (TensorAt 2), IVTensor (TensorAt 1)]" "TensorAt 2"]
  show ?thesis
    using ex2_wrapped cb by (simp add: n a(3) last_n_def) (metis cb)
qed

section \<open>Traversal of the arguments by a function that leaves the state alone\<close>

lemma loop_list_pure:
  "(\<And>x. x \<in> set xs \<Longrightarrow> body x s = ((None, h x), s)) \<Longrightarrow>
   loop_list body xs s = ((None, map h xs), s)"
  by (induction xs) simp_all

lemma tensors_of_simps [simp]:
  "tensors_of (IVTensor t) = [t]"
  "tensors_of (IVTensorList ts) = ts"
  "tensors_of IVNone = []"
  "tensors_of (IVInt n) = []"
  "tensors_of (IVBool b) = []"
  "tensors_of (IVGenericDict d) = []"
  by (simp_all add: tensors_of_def)

lemma tensors_of_IVList: "IVTensor t \<in> set list \<Longrightarrow> t \<in> set (tensors_of (IVList list))"
  by (force simp add: tensors_of_def)

lemma body_pure:
  assumes pure: "\<And>t. t \<in> set (tensors_of ivalue) \<Longrightarrow> func t s = (Inr (g t), s)"
    and nd: "\<not> isGenericDict ivalue"
    and sane: "\<And>t. ivalue = IVTensor t \<Longrightarrow> defined t \<Longrightarrow> defined (g t)"
  shows "foreachTensorInplace_body func ivalue s = ((None, map_tensors g ivalue), s)"
proof (cases ivalue)
  case (IVList list)
  have "loop_list
          (\<lambda>elt. case elt of
                    IVTensor t \<Rightarrow>
                      (\<lambda>s'. case func t s' of
                               (Inl e, s1) \<Rightarrow> ((Some e, elt), s1)
                             | (Inr t', s1) \<Rightarrow> ((None, IVTensor t'), s1))
                  | _ \<Rightarrow> (\<lambda>s'. ((None, elt), s')))
          list s =
        ((None, map (\<lambda>elt. case elt of IVTensor t \<Rightarrow> IVTensor (g t) | _ \<Rightarrow> elt) list), s)"
  proof (rule loop_list_pure)
    fix x assume x: "x \<in> set list"
    show "(case x of
             IVTensor t \<Rightarrow>
               (\<lambda>s'. case func t s' of
                        (Inl e, s1) \<Rightarrow> ((Some e, x), s1)
                      | (Inr t', s1) \<Rightarrow> ((None, IVTensor t'), s1))
           | _ \<Rightarrow> (\<lambda>s'. ((None, x), s'))) s =
          ((None, case x of IVTensor t \<Rightarrow> IVTensor (g t) | _ \<Rightarrow> x), s)"
    proof (cases x)
      case (IVTensor t)
      then have "t \<in> set (tensors_of ivalue)"
        using x IVList by (simp add: tensors_of_IVList)
      then show ?thesis using IVTensor by (simp add: pure)
    qed simp_all
  qed
  with IVList show ?thesis
    by (simp add: foreachTensorInplace_body_def map_tensors_def)
next
  case (IVTensorList list)
  have "loop_list (assign_result func) list s = ((None, map g list), s)"
    by (rule loop_list_pure) (use IVTensorList pure in \<open>simp add: assign_result_def\<close>)
  with IVTensorList show ?thesis
    by (simp add: foreachTensorInplace_body_def map_tensors_def)
next
  case (IVTensor t)
  with sane pure[of t] show ?thesis
    by (auto simp add: foreachTensorInplace_body_def map_tensors_def)
next
  case (IVGenericDict d)
  with nd show ?thesis by (simp add: isGenericDict_def)
qed (simp_all add: foreachTensorInplace_body_def map_tensors_def)

lemma body_dict:
  "isGenericDict ivalue \<Longrightarrow>
   foreachTensorInplace_body func ivalue s = ((Some InternalAssert, ivalue), s)"
  by (cases ivalue) (simp_all add: isGenericDict_def foreachTensorInplace_body_def)

lemma loop_list_dict:
  assumes "\<And>x. x \<in> set xs \<Longrightarrow> \<not> isGenericDict x \<Longrightarrow> body x s = ((None, h x), s)"
    and "\<And>x. x \<in> set xs \<Longrightarrow> isGenericDict x \<Longrightarrow> body x s = ((Some InternalAssert, x), s)"
    and "\<exists>x \<in> set xs. isGenericDict x"
  shows "fst (fst (loop_list body xs s)) = Some InternalAssert \<and> snd (loop_list body xs s) = s"
  using assms
proof (induction xs)
  case Nil
  then show ?case by simp
next
  case (Cons x xs)
  show ?case
  proof (cases "isGenericDict x")
    case True
    then show ?thesis using Cons.prems(2)[of x] by simp
  next
    case False
    then have ex: "\<exists>x \<in> set xs. isGenericDict x" using Cons.prems(3) by auto
    have ih: "fst (fst (loop_list body xs s)) = Some InternalAssert \<and> snd (loop_list body xs s) = s"
      by (rule Cons.IH) (use Cons.prems ex in auto)
    have bx: "body x s = ((None, h x), s)" using Cons.prems(1)[of x] False by simp
    show ?thesis using ih bx by (cases "loop_list body xs s") auto
  qed
qed

lemma nth_slice_map:
  assumes "b \<le> e" and "e \<le> length xs" and "i < length xs"
  shows "(take b xs @ map f (take (e - b) (drop b xs)) @ drop e xs) ! i =
           (if b \<le> i \<and> i < e then f (xs ! i) else xs ! i)"
proof -
  let ?A = "take b xs" and ?B = "map f (take (e - b) (drop b xs))" and ?C = "drop e xs"
  have lA: "length ?A = b" and lB: "length ?B = e - b" using assms by simp_all
  consider "i < b" | "b \<le> i" "i < e" | "e \<le> i" by linarith
  then show ?thesis
  proof cases
    case 1
    then have "(?A @ ?B @ ?C) ! i = ?A ! i" using lA by (simp add: nth_append)
    then show ?thesis using 1 by simp
  next
    case 2
    then have lt: "i - b < e - b" by linarith
    have "(?A @ ?B @ ?C) ! i = (?B @ ?C) ! (i - b)"
      using 2 lA by (simp add: nth_append)
    also have "\<dots> = ?B ! (i - b)" using lt lB by (simp add: nth_append)
    also have "\<dots> = f (xs ! i)" using lt 2 assms by simp
    finally show ?thesis using 2 by simp
  next
    case 3
    then have nlt: "\<not> i - b < e - b" "\<not> i < b" using assms by linarith+
    have "(?A @ ?B @ ?C) ! i = (?B @ ?C) ! (i - b)"
      using nlt lA by (simp add: nth_append)
    also have "\<dots> = ?C ! (i - b - (e - b))" using nlt lB by (simp only: nth_append if_False)
    also have "i - b - (e - b) = i - e" using assms 3 by simp
    also have "?C ! (i - e) = xs ! i" using 3 assms by simp
    finally show ?thesis using 3 by simp
  qed
qed

lemma slice_set:
  assumes "x \<in> set (take (e - b) (drop b args))"
  shows "\<exists>i. b \<le> i \<and> i < e \<and> i < length args \<and> args ! i = x"
proof -
  from assms obtain j where j: "j < length (take (e - b) (drop b args))"
      "take (e - b) (drop b args) ! j = x"
    by (auto simp add: in_set_conv_nth)
  then have "b + j < e" "b + j < length args" "args ! (b + j) = x" by auto
  then show ?thesis by (intro exI[of _ "b + j"]) simp
qed

lemma foreach_pure:
  assumes range: "0 \<le> begin'" "begin' \<le> end'" "end' \<le> int (length args)"
    and pure: "\<And>i t. nat begin' \<le> i \<Longrightarrow> i < nat end' \<Longrightarrow> t \<in> set (tensors_of (args ! i))
                 \<Longrightarrow> func t s = (Inr (g t), s)"
    and sane: "\<And>i t. nat begin' \<le> i \<Longrightarrow> i < nat end' \<Longrightarrow> args ! i = IVTensor t
                 \<Longrightarrow> defined t \<Longrightarrow> defined (g t)"
    and nd: "\<And>i. nat begin' \<le> i \<Longrightarrow> i < nat end' \<Longrightarrow> \<not> isGenericDict (args ! i)"
  shows "foreachTensorInplace args begin' end' func s =
           ((None, take (nat begin') args
                   @ map (map_tensors g) (take (nat end' - nat begin') (drop (nat begin') args))
                   @ drop (nat end') args), s)"
proof -
  let ?b = "nat begin'" and ?e = "nat end'"
  let ?mid = "take (?e - ?b) (drop ?b args)"
  have "loop_list (foreachTensorInplace_body func) ?mid s = ((None, map (map_tensors g) ?mid), s)"
  proof (rule loop_list_pure)
    fix x assume "x \<in> set ?mid"
    from slice_set[OF this] obtain i where i: "?b \<le> i" "i < ?e" "args ! i = x" by blast
    show "foreachTensorInplace_body func x s = ((None, map_tensors g x), s)"
    proof (rule body_pure)
      show "\<And>t. t \<in> set (tensors_of x) \<Longrightarrow> func t s = (Inr (g t), s)"
        using pure[OF i(1) i(2)] i(3) by simp
      show "\<not> isGenericDict x" using nd i by blast
      show "\<And>t. x = IVTensor t \<Longrightarrow> defined t \<Longrightarrow> defined (g t)" using sane i by blast
    qed
  qed
  then show ?thesis using range by (simp add: foreachTensorInplace_def)
qed

lemma foreach_pure_nth:
  assumes "0 \<le> begin'" "begin' \<le> end'" "end' \<le> int (length args)" "i < length args"
  shows "(take (nat begin') args
          @ map f (take (nat end' - nat begin') (drop (nat begin') args))
          @ drop (nat end') args) ! i =
         (if nat begin' \<le> i \<and> i < nat end' then f (args ! i) else args ! i)"
  using assms by (intro nth_slice_map) auto

section \<open>Traversal of the arguments by a callable with effects\<close>

lemma apply_in_order_length:
  "apply_in_order f ts s = (Inr ts', s') \<Longrightarrow> length ts' = length ts"
  by (induction ts arbitrary: s ts') (auto split: prod.splits sum.splits)

lemma apply_in_order_append:
  assumes "apply_in_order f (xs @ ys) s = (Inr zs, s')"
  shows "\<exists>xs' s1 ys'. apply_in_order f xs s = (Inr xs', s1)
           \<and> apply_in_order f ys s1 = (Inr ys', s') \<and> zs = xs' @ ys'"
  using assms
proof (induction xs arbitrary: s zs)
  case Nil
  then show ?case by simp
next
  case (Cons x xs)
  from Cons.prems obtain x' s0 zs0 where x: "f x s = (Inr x', s0)"
    and r: "apply_in_order f (xs @ ys) s0 = (Inr zs0, s')" and z: "zs = x' # zs0"
    by (auto split: prod.splits sum.splits)
  from Cons.IH[OF r] obtain xs' s1 ys' where
    "apply_in_order f xs s0 = (Inr xs', s1)" "apply_in_order f ys s1 = (Inr ys', s')"
    "zs0 = xs' @ ys'"
    by blast
  with x z show ?case by simp
qed

lemma tensors_of_IVList_Cons:
  "tensors_of (IVList (elt # elts)) =
     (case elt of IVTensor t \<Rightarrow> [t] | _ \<Rightarrow> []) @ tensors_of (IVList elts)"
  by (simp add: tensors_of_def)

lemma tensors_of_IVList_Nil [simp]: "tensors_of (IVList []) = []"
  by (simp add: tensors_of_def)

lemma loop_elts_run:
  assumes "apply_in_order func (tensors_of (IVList list)) s = (Inr ts', s')"
  shows "loop_list
           (\<lambda>elt. case elt of
                     IVTensor t \<Rightarrow>
                       (\<lambda>s'. case func t s' of
                                (Inl e, s1) \<Rightarrow> ((Some e, elt), s1)
                              | (Inr t', s1) \<Rightarrow> ((None, IVTensor t'), s1))
                   | _ \<Rightarrow> (\<lambda>s'. ((None, elt), s')))
           list s = ((None, refill_elts list ts'), s')"
  using assms
proof (induction list arbitrary: s ts')
  case Nil
  then show ?case by simp
next
  case (Cons elt list)
  show ?case
  proof (cases elt)
    case (IVTensor t)
    from Cons.prems IVTensor obtain t' s0 ts0 where t: "func t s = (Inr t', s0)"
      and r: "apply_in_order func (tensors_of (IVList list)) s0 = (Inr ts0, s')"
      and z: "ts' = t' # ts0"
      by (auto simp add: tensors_of_IVList_Cons split: prod.splits sum.splits)
    from Cons.IH[OF r] t z IVTensor show ?thesis by simp
  qed (use Cons in \<open>simp_all add: tensors_of_IVList_Cons\<close>)
qed

lemma loop_tensors_run:
  assumes "apply_in_order func list s = (Inr ts', s')"
  shows "loop_list (assign_result func) list s = ((None, ts'), s')"
  using assms
proof (induction list arbitrary: s ts')
  case Nil
  then show ?case by simp
next
  case (Cons t list)
  from Cons.prems obtain t' s0 ts0 where t: "func t s = (Inr t', s0)"
    and r: "apply_in_order func list s0 = (Inr ts0, s')" and z: "ts' = t' # ts0"
    by (auto split: prod.splits sum.splits)
  from Cons.IH[OF r] t z show ?case by (simp add: assign_result_def)
qed

lemma body_run:
  assumes nd: "\<not> isGenericDict ivalue"
    and run: "apply_in_order func (tensors_of ivalue) s = (Inr ts', s')"
    and sane: "keeps_defined ivalue (refill_ivalue ivalue ts')"
  shows "foreachTensorInplace_body func ivalue s = ((None, refill_ivalue ivalue ts'), s')"
proof (cases ivalue)
  case (IVList list)
  with loop_elts_run[of func list s ts' s'] run show ?thesis
    by (simp add: foreachTensorInplace_body_def refill_ivalue_def)
next
  case (IVTensorList list)
  with loop_tensors_run[of func list s ts' s'] run apply_in_order_length[of func list s ts' s']
  show ?thesis
    by (simp add: foreachTensorInplace_body_def refill_ivalue_def)
next
  case (IVTensor t)
  with run obtain t' where t: "func t s = (Inr t', s')" and z: "ts' = [t']"
    by (auto split: prod.splits sum.splits)
  with IVTensor sane show ?thesis
    by (simp add: foreachTensorInplace_body_def refill_ivalue_def keeps_defined_def)
next
  case (IVGenericDict d)
  with nd show ?thesis by (simp add: isGenericDict_def)
qed (use run in \<open>auto simp add: foreachTensorInplace_body_def refill_ivalue_def\<close>)

lemma loop_run:
  assumes "list_all (\<lambda>ivalue. \<not> isGenericDict ivalue) xs"
    and "apply_in_order func (concat (map tensors_of xs)) s = (Inr ts', s')"
    and "list_all2 keeps_defined xs (refill xs ts')"
  shows "loop_list (foreachTensorInplace_body func) xs s = ((None, refill xs ts'), s')"
  using assms
proof (induction xs arbitrary: s ts')
  case Nil
  then show ?case by simp
next
  case (Cons x xs)
  from apply_in_order_append[of func "tensors_of x" "concat (map tensors_of xs)" s ts' s']
       Cons.prems(2)
  obtain xs' s1 ys' where a: "apply_in_order func (tensors_of x) s = (Inr xs', s1)"
    and b: "apply_in_order func (concat (map tensors_of xs)) s1 = (Inr ys', s')"
    and z: "ts' = xs' @ ys'"
    by auto
  have len: "length xs' = length (tensors_of x)" by (rule apply_in_order_length[OF a])
  have tk: "take (length (tensors_of x)) ts' = xs'" "drop (length (tensors_of x)) ts' = ys'"
    using len z by simp_all
  have "foreachTensorInplace_body func x s = ((None, refill_ivalue x xs'), s1)"
    by (rule body_run) (use Cons.prems a tk in simp_all)
  moreover have "loop_list (foreachTensorInplace_body func) xs s1 = ((None, refill xs ys'), s')"
    by (rule Cons.IH) (use Cons.prems b tk in simp_all)
  ultimately show ?case by (simp add: tk)
qed

lemma refill_length [simp]: "length (refill xs ts) = length xs"
  by (induction xs arbitrary: ts) simp_all

lemma refill_elts_shape:
  "length ts = length (tensors_of (IVList list)) \<Longrightarrow>
   list_all2 (rel_elt (\<lambda>t t'. True)) list (refill_elts list ts)
   \<and> tensors_of (IVList (refill_elts list ts)) = ts"
proof (induction list arbitrary: ts)
  case Nil
  then show ?case by simp
next
  case (Cons elt list)
  show ?case
  proof (cases elt)
    case (IVTensor t)
    with Cons.prems obtain t' ts0 where z: "ts = t' # ts0"
      by (cases ts) (simp_all add: tensors_of_IVList_Cons)
    with Cons.prems IVTensor have "length ts0 = length (tensors_of (IVList list))"
      by (simp add: tensors_of_IVList_Cons)
    from Cons.IH[OF this] z IVTensor show ?thesis by (simp add: tensors_of_IVList_Cons)
  qed (use Cons in \<open>simp_all add: tensors_of_IVList_Cons\<close>)
qed

lemma refill_ivalue_shape:
  assumes "length ts = length (tensors_of ivalue)"
  shows "rel_ivalue (\<lambda>t t'. True) ivalue (refill_ivalue ivalue ts)
         \<and> tensors_of (refill_ivalue ivalue ts) = ts"
proof (cases ivalue)
  case (IVList list)
  with refill_elts_shape[of ts list] assms show ?thesis by (simp add: refill_ivalue_def)
next
  case (IVTensorList list)
  with assms show ?thesis by (simp add: refill_ivalue_def list_all2_conv_all_nth)
next
  case (IVTensor t)
  with assms show ?thesis by (cases ts) (simp_all add: refill_ivalue_def)
qed (use assms in \<open>simp_all add: refill_ivalue_def\<close>)

lemma refill_shape:
  "length ts = length (concat (map tensors_of xs)) \<Longrightarrow>
   list_all2 (rel_ivalue (\<lambda>t t'. True)) xs (refill xs ts)
   \<and> concat (map tensors_of (refill xs ts)) = ts"
proof (induction xs arbitrary: ts)
  case Nil
  then show ?case by simp
next
  case (Cons x xs)
  have a: "length (take (length (tensors_of x)) ts) = length (tensors_of x)"
    using Cons.prems by simp
  have b: "length (drop (length (tensors_of x)) ts) = length (concat (map tensors_of xs))"
    using Cons.prems by simp
  from refill_ivalue_shape[OF a] Cons.IH[OF b] show ?case by simp
qed

lemma body_dict_or_fails:
  "isGenericDict ivalue \<Longrightarrow> fst (fst (foreachTensorInplace_body func ivalue s)) \<noteq> None"
  by (simp add: body_dict)

lemma loop_list_dict_fails:
  assumes "\<not> list_all (\<lambda>ivalue. \<not> isGenericDict ivalue) xs"
  shows "fst (fst (loop_list (foreachTensorInplace_body func) xs s)) \<noteq> None"
  using assms
proof (induction xs arbitrary: s)
  case Nil
  then show ?case by simp
next
  case (Cons x xs)
  obtain r y s1 where b: "foreachTensorInplace_body func x s = ((r, y), s1)"
    by (metis surj_pair)
  show ?case
  proof (cases r)
    case (Some e)
    with b show ?thesis by simp
  next
    case None
    with b body_dict_or_fails[of x func s] have "\<not> isGenericDict x" by auto
    with Cons.prems have "\<not> list_all (\<lambda>ivalue. \<not> isGenericDict ivalue) xs" by simp
    from Cons.IH[OF this, of s1] b None show ?thesis
      by (cases "loop_list (foreachTensorInplace_body func) xs s1") auto
  qed
qed

lemma loop_elts_error:
  assumes "\<forall>t s e. fst (func t s) \<noteq> Inl e"
  shows "fst (fst (loop_list
           (\<lambda>elt. case elt of
                     IVTensor t \<Rightarrow>
                       (\<lambda>s'. case func t s' of
                                (Inl e, s1) \<Rightarrow> ((Some e, elt), s1)
                              | (Inr t', s1) \<Rightarrow> ((None, IVTensor t'), s1))
                   | _ \<Rightarrow> (\<lambda>s'. ((None, elt), s')))
           list s)) = None"
proof (induction list arbitrary: s)
  case Nil
  then show ?case by simp
next
  case (Cons elt list)
  show ?case
  proof (cases elt)
    case (IVTensor t)
    from assms obtain t' s0 where "func t s = (Inr t', s0)"
      by (metis fst_conv old.sum.exhaust surj_pair)
    with IVTensor Cons.IH[of s0] show ?thesis by (auto split: prod.splits)
  qed (use Cons.IH[of s] in \<open>auto split: prod.splits\<close>)
qed

lemma loop_tensors_error:
  assumes "\<forall>t s e. fst (func t s) \<noteq> Inl e"
  shows "fst (fst (loop_list (assign_result func) list s)) = None"
proof (induction list arbitrary: s)
  case Nil
  then show ?case by simp
next
  case (Cons t list)
  from assms obtain t' s0 where "func t s = (Inr t', s0)"
    by (metis fst_conv old.sum.exhaust surj_pair)
  with Cons.IH[of s0] show ?case by (auto simp add: assign_result_def split: prod.splits)
qed

lemma body_error:
  assumes "\<forall>t s e. fst (func t s) \<noteq> Inl e"
  shows "fst (fst (foreachTensorInplace_body func ivalue s)) = None
         \<or> fst (fst (foreachTensorInplace_body func ivalue s)) = Some InternalAssert"
proof (cases ivalue)
  case (IVList list)
  with loop_elts_error[OF assms, of list s] show ?thesis
    by (auto simp add: foreachTensorInplace_body_def split: prod.splits option.splits)
next
  case (IVTensorList list)
  with loop_tensors_error[OF assms, of list s] show ?thesis
    by (auto simp add: foreachTensorInplace_body_def split: prod.splits option.splits)
next
  case (IVTensor t)
  from assms obtain t' s0 where "func t s = (Inr t', s0)"
    by (metis fst_conv old.sum.exhaust surj_pair)
  with IVTensor show ?thesis by (simp add: foreachTensorInplace_body_def)
qed (simp_all add: foreachTensorInplace_body_def)

lemma loop_list_error:
  assumes "\<forall>t s e. fst (func t s) \<noteq> Inl e"
  shows "fst (fst (loop_list (foreachTensorInplace_body func) xs s)) = None
         \<or> fst (fst (loop_list (foreachTensorInplace_body func) xs s)) = Some InternalAssert"
proof (induction xs arbitrary: s)
  case Nil
  then show ?case by simp
next
  case (Cons x xs)
  obtain r y s1 where b: "foreachTensorInplace_body func x s = ((r, y), s1)"
    by (metis surj_pair)
  with body_error[OF assms, of x s] have r: "r = None \<or> r = Some InternalAssert" by simp
  show ?case
  proof (cases r)
    case (Some e)
    with r b show ?thesis by simp
  next
    case None
    with b Cons.IH[of s1] show ?thesis
      by (cases "loop_list (foreachTensorInplace_body func) xs s1") auto
  qed
qed

text \<open>
  Claim C10, as amended.  Let \<open>0 \<le> begin \<le> end \<le> size\<close>, and let \<open>func\<close> be any callable:
  it may change the state and it may throw.  If no argument of the range is a keyed
  dictionary, \<open>func\<close> returns on every tensor of the range when it is applied to them in
  order (each application in the state the one before left), and a defined tensor that
  is itself an argument of the range is not replaced by the undefined tensor, then
  \<open>foreachTensorInplace\<close> returns in the state the last application left; in the stack it
  returns the tensors of the range, also those inside a list or a tensor list, are
  replaced in place and in order by the results of the applications, and the size of
  the stack, every argument outside the range, every element that is not a tensor and
  the length and order of every list are unchanged.  If some argument of the range is a
  keyed dictionary the call fails, with an internal assertion when \<open>func\<close> never throws.
\<close>

theorem foreachTensorInplace_spec:
  assumes "0 \<le> begin'" and "begin' \<le> end'" and "end' \<le> int (length args)"
  shows "(list_all (\<lambda>ivalue. \<not> isGenericDict ivalue)
            (take (nat end' - nat begin') (drop (nat begin') args))
          \<and> apply_in_order func
               (concat (map tensors_of (take (nat end' - nat begin') (drop (nat begin') args)))) s
             = (Inr ts', s')
          \<and> list_all2 keeps_defined
               (take (nat end' - nat begin') (drop (nat begin') args))
               (refill (take (nat end' - nat begin') (drop (nat begin') args)) ts')
          \<longrightarrow>
            foreachTensorInplace args begin' end' func s =
              ((None, take (nat begin') args
                      @ refill (take (nat end' - nat begin') (drop (nat begin') args)) ts'
                      @ drop (nat end') args), s')
            \<and> length (snd (fst (foreachTensorInplace args begin' end' func s))) = length args
            \<and> list_all2 (rel_ivalue (\<lambda>t t'. True))
                 (take (nat end' - nat begin') (drop (nat begin') args))
                 (refill (take (nat end' - nat begin') (drop (nat begin') args)) ts')
            \<and> concat (map tensors_of
                 (refill (take (nat end' - nat begin') (drop (nat begin') args)) ts')) = ts')
       \<and> (\<not> list_all (\<lambda>ivalue. \<not> isGenericDict ivalue)
              (take (nat end' - nat begin') (drop (nat begin') args))
          \<longrightarrow>
            fst (fst (foreachTensorInplace args begin' end' func s)) \<noteq> None
            \<and> ((\<forall>t s e. fst (func t s) \<noteq> Inl e) \<longrightarrow>
                 fst (fst (foreachTensorInplace args begin' end' func s)) = Some InternalAssert))"
proof (intro conjI impI)
  let ?b = "nat begin'" and ?e = "nat end'"
  let ?mid = "take (?e - ?b) (drop ?b args)"
  have be: "?b \<le> ?e" "?e \<le> length args" using assms by auto
  have unfold: "foreachTensorInplace args begin' end' func s =
      (case loop_list (foreachTensorInplace_body func) ?mid s of
         ((r, mid), s1) \<Rightarrow> ((r, take ?b args @ mid @ drop ?e args), s1))"
    using assms by (simp add: foreachTensorInplace_def)
  {
    assume a: "list_all (\<lambda>ivalue. \<not> isGenericDict ivalue) ?mid
          \<and> apply_in_order func (concat (map tensors_of ?mid)) s = (Inr ts', s')
          \<and> list_all2 keeps_defined ?mid (refill ?mid ts')"
    then have "loop_list (foreachTensorInplace_body func) ?mid s = ((None, refill ?mid ts'), s')"
      by (intro loop_run) simp_all
    then show eq: "foreachTensorInplace args begin' end' func s =
              ((None, take ?b args @ refill ?mid ts' @ drop ?e args), s')"
      by (simp add: unfold)
    show "length (snd (fst (foreachTensorInplace args begin' end' func s))) = length args"
      using be by (simp add: eq)
    from a have "length ts' = length (concat (map tensors_of ?mid))"
      using apply_in_order_length by blast
    from refill_shape[OF this]
    show "list_all2 (rel_ivalue (\<lambda>t t'. True)) ?mid (refill ?mid ts')"
      and "concat (map tensors_of (refill ?mid ts')) = ts'"
      by simp_all
  }
  {
    assume d: "\<not> list_all (\<lambda>ivalue. \<not> isGenericDict ivalue) ?mid"
    from loop_list_dict_fails[OF d, of func s]
    show f: "fst (fst (foreachTensorInplace args begin' end' func s)) \<noteq> None"
      by (cases "loop_list (foreachTensorInplace_body func) ?mid s") (auto simp add: unfold)
    assume "\<forall>t s e. fst (func t s) \<noteq> Inl e"
    from loop_list_error[OF this, of ?mid s]
    have "fst (fst (foreachTensorInplace args begin' end' func s)) = None
          \<or> fst (fst (foreachTensorInplace args begin' end' func s)) = Some InternalAssert"
      by (cases "loop_list (foreachTensorInplace_body func) ?mid s") (auto simp add: unfold)
    then show "fst (fst (foreachTensorInplace args begin' end' func s)) = Some InternalAssert"
      using f by auto
  }
qed

theorem foreachTensorInplace_spec_witness:
  "foreachTensorInplace ex_args 1 4 (backFallback_wrap 2) ex_state2 =
     ((None, [IVInt 5, IVTensor (TensorAt 3), IVTensorList [TensorAt 4, UndefinedTensor],
              IVList [IVTensor (TensorAt 5), IVNone], IVTensor (TensorAt 3)]),
      ex_state2\<lparr>impls := impls ex_state2
                     @ [TensorWrapper (TensorAt 0) 2 1 ex_meta,
                        TensorWrapper (TensorAt 1) 2 1 ex_meta,
                        TensorWrapper (TensorAt 2) 2 1 ex_meta]\<rparr>)
   \<and> fst (fst (foreachTensorInplace [IVGenericDict []] 0 1 ex_shift_func ex_state0))
        = Some InternalAssert"
proof -
  let ?s' = "ex_state2\<lparr>impls := impls ex_state2
                     @ [TensorWrapper (TensorAt 0) 2 1 ex_meta,
                        TensorWrapper (TensorAt 1) 2 1 ex_meta,
                        TensorWrapper (TensorAt 2) 2 1 ex_meta]\<rparr>"
  let ?ts' = "[TensorAt 3, TensorAt 4, UndefinedTensor, TensorAt 5]"
  have slice: "take (nat 4 - nat 1) (drop (nat 1) ex_args) =
                 [IVTensor (TensorAt 0), IVTensorList [TensorAt 1, UndefinedTensor],
                  IVList [IVTensor (TensorAt 2), IVNone]]"
    by (simp add: ex_args_def)
  have ts: "concat (map tensors_of (take (nat 4 - nat 1) (drop (nat 1) ex_args))) =
              [TensorAt 0, TensorAt 1, UndefinedTensor, TensorAt 2]"
    unfolding slice by (simp add: tensors_of_def)
  have run: "apply_in_order (backFallback_wrap 2)
               (concat (map tensors_of (take (nat 4 - nat 1) (drop (nat 1) ex_args)))) ex_state2
             = (Inr ?ts', ?s')"
    unfolding ts
    by (simp add: backFallback_wrap_def makeTensorWrapper_def getLifeHandleForLevel_def
        metadata_of_def impl_at_def defined_def Let_def ex_state2_def ex_grad_layer_def)
  have filled: "refill (take (nat 4 - nat 1) (drop (nat 1) ex_args)) ?ts' =
                  [IVTensor (TensorAt 3), IVTensorList [TensorAt 4, UndefinedTensor],
                   IVList [IVTensor (TensorAt 5), IVNone]]"
    unfolding slice by (simp add: refill_ivalue_def tensors_of_def)
  have nd: "list_all (\<lambda>ivalue. \<not> isGenericDict ivalue)
              (take (nat 4 - nat 1) (drop (nat 1) ex_args))"
    unfolding slice by (simp add: isGenericDict_def)
  have sane: "list_all2 keeps_defined (take (nat 4 - nat 1) (drop (nat 1) ex_args))
                (refill (take (nat 4 - nat 1) (drop (nat 1) ex_args)) ?ts')"
    unfolding filled unfolding slice by (simp add: keeps_defined_def defined_def)
  from foreachTensorInplace_spec[of 1 4 ex_args "backFallback_wrap 2" ex_state2 ?ts' ?s']
       nd run sane
  have a: "foreachTensorInplace ex_args 1 4 (backFallback_wrap 2) ex_state2 =
             ((None, take (nat 1) ex_args
                     @ refill (take (nat 4 - nat 1) (drop (nat 1) ex_args)) ?ts'
                     @ drop (nat 4) ex_args), ?s')"
    by (simp add: ex_args_def)
  have d: "\<not> list_all (\<lambda>ivalue. \<not> isGenericDict ivalue)
              (take (nat 1 - nat 0) (drop (nat 0) [IVGenericDict []]))"
    by (simp add: isGenericDict_def)
  have total: "\<forall>t s e. fst (ex_shift_func t s) \<noteq> Inl e"
    by (simp add: ex_shift_func_def)
  from foreachTensorInplace_spec[of 0 1 "[IVGenericDict []]" ex_shift_func ex_state0] d total
  have b: "fst (fst (foreachTensorInplace [IVGenericDict []] 0 1 ex_shift_func ex_state0))
        = Some InternalAssert"
    by simp
  show ?thesis
    unfolding a filled using b by (simp add: ex_args_def)
qed

text \<open>
  The claim as it was stated, for every function: a function that returns the undefined
  tensor for a defined argument trips the sanity check of the loop; the call fails and
  the second tensor of the range is not replaced.
\<close>

theorem foreachTensorInplace_undefined_counterexample:
  "foreachTensorInplace [IVTensor (TensorAt 0), IVTensor (TensorAt 1)] 0 2 ex_undefined_func ex_state0
     = ((Some InternalAssert, [IVTensor UndefinedTensor, IVTensor (TensorAt 1)]), ex_state0)"
  by (simp add: foreachTensorInplace_def foreachTensorInplace_body_def ex_undefined_func_def
      defined_def)

section \<open>The front interceptor's call of the operation\<close>

lemma unwrapIfDead_spec: "unwrapIfDead t s = without_dead_wrapper s t"
  by (cases t)
     (auto simp add: unwrapIfDead_def without_dead_wrapper_def maybeGetTensorWrapper_def
       impl_at_def is_alive_def TensorWrapper_value_def split: TensorImpl.splits)

lemma append_range_nth:
  "length xs \<le> i \<Longrightarrow> i < length xs + length ys \<Longrightarrow> (xs @ ys) ! i \<in> set ys"
  by (simp add: nth_append)

lemma under_key_sets_guards:
  "(case ExcludeDispatchKeyGuard_ctor exclude s of
      (exclude_guard, s2) \<Rightarrow>
        (case IncludeDispatchKeyGuard_ctor include s2 of
           (include_guard, s3) \<Rightarrow>
             (case run s3 of
                (a, s4) \<Rightarrow>
                  (a, ExcludeDispatchKeyGuard_dtor exclude_guard
                        (IncludeDispatchKeyGuard_dtor include_guard s4)))))
   = under_key_sets include exclude run s"
proof -
  have s3: "snd (IncludeDispatchKeyGuard_ctor include (snd (ExcludeDispatchKeyGuard_ctor exclude s)))
            = s\<lparr>tls_local_dispatch_key_set :=
                  \<lparr>included = included (tls_local_dispatch_key_set s) \<union> include,
                   excluded = excluded (tls_local_dispatch_key_set s) \<union> exclude\<rparr>\<rparr>"
    by (simp add: ExcludeDispatchKeyGuard_ctor_def IncludeDispatchKeyGuard_ctor_def Let_def)
  have g: "fst (ExcludeDispatchKeyGuard_ctor exclude s)
             = exclude - excluded (tls_local_dispatch_key_set s)"
          "fst (IncludeDispatchKeyGuard_ctor include (snd (ExcludeDispatchKeyGuard_ctor exclude s)))
             = include - included (tls_local_dispatch_key_set s)"
    by (simp_all add: ExcludeDispatchKeyGuard_ctor_def IncludeDispatchKeyGuard_ctor_def Let_def)
  have d: "\<And>eg ig s4. ExcludeDispatchKeyGuard_dtor eg (IncludeDispatchKeyGuard_dtor ig s4)
             = s4\<lparr>tls_local_dispatch_key_set :=
                    \<lparr>included = included (tls_local_dispatch_key_set s4) - ig,
                     excluded = excluded (tls_local_dispatch_key_set s4) - eg\<rparr>\<rparr>"
    by (simp add: ExcludeDispatchKeyGuard_dtor_def IncludeDispatchKeyGuard_dtor_def Let_def)
  obtain eg s2 where e: "ExcludeDispatchKeyGuard_ctor exclude s = (eg, s2)" by (metis surj_pair)
  obtain ig s3' where i: "IncludeDispatchKeyGuard_ctor include s2 = (ig, s3')"
    by (metis surj_pair)
  obtain r stack4 s4 where c: "run s3' = ((r, stack4), s4)" by (metis surj_pair)
  from s3 g e i have s3': "s3' = s\<lparr>tls_local_dispatch_key_set :=
                  \<lparr>included = included (tls_local_dispatch_key_set s) \<union> include,
                   excluded = excluded (tls_local_dispatch_key_set s) \<union> exclude\<rparr>\<rparr>"
    and eg: "eg = exclude - excluded (tls_local_dispatch_key_set s)"
    and ig: "ig = include - included (tls_local_dispatch_key_set s)"
    by simp_all
  have "under_key_sets include exclude run s =
          ((r, stack4), ExcludeDispatchKeyGuard_dtor eg (IncludeDispatchKeyGuard_dtor ig s4))"
    using c unfolding s3' by (simp add: under_key_sets_def Let_def d eg ig)
  then show ?thesis by (simp add: e i c)
qed

lemma front_run:
  assumes ne: "dynamicLayerStack s \<noteq> []"
    and chk: "checkForInvalidMutationOnCaptures op stack (dynamicLayerStack s) s = None"
    and pass: "foreachTensorInplace stack (int (length stack) - int (length (arguments (schema op))))
                 (int (length stack)) maybeTransformGradWrappers s = ((None, stack1), s1)"
    and dls: "dynamicLayerStack s1 = dynamicLayerStack s"
  shows "key (last (dynamicLayerStack s)) = Autograd \<Longrightarrow>
           dynamicLayerFrontFallback op stack s =
             under_key_sets {}
               (all_dynlayer_keyset - {kDynamicLayerBackModeKey} - autograd_dispatch_keyset
                  - {ADInplaceOrView})
               (callBoxed op stack1) s1"
    and "key (last (dynamicLayerStack s)) = kBatchedKey \<Longrightarrow>
         anyTensors (last_n stack1 (length (arguments (schema op)))) (batchedAtCurrentLevel s1)
           = Inr b \<Longrightarrow>
           dynamicLayerFrontFallback op stack s =
             under_key_sets {kVmapModeKey}
               (if b then all_dynlayer_keyset - {kDynamicLayerBackModeKey} - {kBatchedKey}
                else insert kBatchedKey
                       (all_dynlayer_keyset - {kDynamicLayerBackModeKey} - {kBatchedKey}))
               (callBoxed op stack1) s1"
proof -
  assume k: "key (last (dynamicLayerStack s)) = Autograd"
  have r: "getIncludeExcludeSetsFor Autograd =
             Inr ({}, all_dynlayer_keyset - {kDynamicLayerBackModeKey} - autograd_dispatch_keyset
                        - {ADInplaceOrView})"
    by (simp add: getIncludeExcludeSetsFor_def Let_def)
  show "dynamicLayerFrontFallback op stack s =
             under_key_sets {}
               (all_dynlayer_keyset - {kDynamicLayerBackModeKey} - autograd_dispatch_keyset
                  - {ADInplaceOrView})
               (callBoxed op stack1) s1"
    using ne chk pass dls k r
    by (simp add: dynamicLayerFrontFallback_def Let_def under_key_sets_guards)
next
  assume k: "key (last (dynamicLayerStack s)) = kBatchedKey"
    and a: "anyTensors (last_n stack1 (length (arguments (schema op)))) (batchedAtCurrentLevel s1)
              = Inr b"
  have r: "getIncludeExcludeSetsFor kBatchedKey =
     Inr ({kVmapModeKey}, all_dynlayer_keyset - {kDynamicLayerBackModeKey} - {kBatchedKey})"
    by (simp add: getIncludeExcludeSetsFor_def Let_def)
  show "dynamicLayerFrontFallback op stack s =
             under_key_sets {kVmapModeKey}
               (if b then all_dynlayer_keyset - {kDynamicLayerBackModeKey} - {kBatchedKey}
                else insert kBatchedKey
                       (all_dynlayer_keyset - {kDynamicLayerBackModeKey} - {kBatchedKey}))
               (callBoxed op stack1) s1"
    using ne chk pass dls k r a
    by (cases b) (simp_all add: dynamicLayerFrontFallback_def Let_def under_key_sets_guards)
qed

lemma front_dict_fails:
  assumes ne: "dynamicLayerStack s \<noteq> []"
    and la: "length args = length (arguments (schema op))"
    and d: "\<not> list_all (\<lambda>ivalue. \<not> isGenericDict ivalue) args"
  shows "fst (fst (dynamicLayerFrontFallback op (pre @ args) s)) \<noteq> None"
proof (cases "checkForInvalidMutationOnCaptures op (pre @ args) (dynamicLayerStack s) s")
  case (Some e)
  then show ?thesis using ne by (simp add: dynamicLayerFrontFallback_def)
next
  case None
  let ?stack = "pre @ args"
  let ?b = "int (length ?stack) - int (length (arguments (schema op)))"
  have unfold: "foreachTensorInplace ?stack ?b (int (length ?stack)) maybeTransformGradWrappers s =
      (case loop_list (foreachTensorInplace_body maybeTransformGradWrappers) args s of
         ((r, mid), s1) \<Rightarrow> ((r, pre @ mid), s1))"
    using la by (simp add: foreachTensorInplace_def)
  from loop_list_dict_fails[OF d, of maybeTransformGradWrappers s]
  obtain e mid s1 where
    "loop_list (foreachTensorInplace_body maybeTransformGradWrappers) args s = ((Some e, mid), s1)"
    by (metis not_None_eq prod.collapse)
  then have "foreachTensorInplace ?stack ?b (int (length ?stack)) maybeTransformGradWrappers s =
               ((Some e, pre @ mid), s1)"
    unfolding unfold by simp
  then show ?thesis
    using ne None by (simp add: dynamicLayerFrontFallback_def Let_def del: length_append)
qed

lemma all_pred_Inr:
  "(\<And>x. x \<in> set xs \<Longrightarrow> p x = Inr (q x)) \<Longrightarrow> all_pred p xs = Inr (list_all q xs)"
  by (induction xs) simp_all

lemma batchedAtCurrentLevel_spec:
  "dynamicLayerStack s \<noteq> [] \<Longrightarrow>
   batchedAtCurrentLevel s t = Inr (batchedAtLevel s (layerId (last (dynamicLayerStack s))) t)"
  by (simp add: batchedAtCurrentLevel_def batchedAtLevel_def Let_def split: option.splits)

lemma list_all_elts_tensors:
  "list_all (\<lambda>elt. case elt of IVTensor t \<Rightarrow> q t | _ \<Rightarrow> True) list
     = list_all q (tensors_of (IVList list))"
proof (induction list)
  case Nil
  then show ?case by simp
next
  case (Cons elt list)
  then show ?case by (cases elt) (simp_all add: tensors_of_IVList_Cons)
qed

lemma allTensors_spec:
  assumes p: "\<And>t. pred t = Inr (q t)"
    and nd: "list_all (\<lambda>ivalue. \<not> isGenericDict ivalue) xs"
  shows "allTensors xs pred = Inr (list_all (\<lambda>ivalue. list_all q (tensors_of ivalue)) xs)"
  unfolding allTensors_def
proof (rule all_pred_Inr)
  fix x assume "x \<in> set xs"
  with nd have d: "\<not> isGenericDict x" by (simp add: list_all_iff)
  show "(case x of
           IVList list \<Rightarrow>
             all_pred (\<lambda>elt. case elt of IVTensor t \<Rightarrow> pred t | _ \<Rightarrow> Inr True) list
         | IVTensorList list \<Rightarrow> all_pred pred list
         | IVGenericDict d \<Rightarrow> Inl InternalAssert
         | IVTensor t \<Rightarrow> pred t
         | _ \<Rightarrow> Inr True) = Inr (list_all q (tensors_of x))"
  proof (cases x)
    case (IVList list)
    have "all_pred (\<lambda>elt. case elt of IVTensor t \<Rightarrow> pred t | _ \<Rightarrow> Inr True) list =
            Inr (list_all (\<lambda>elt. case elt of IVTensor t \<Rightarrow> q t | _ \<Rightarrow> True) list)"
      by (rule all_pred_Inr) (simp add: p split: IValue.splits)
    with IVList show ?thesis by (simp add: list_all_elts_tensors)
  next
    case (IVTensorList list)
    have "all_pred pred list = Inr (list_all q list)" by (rule all_pred_Inr) (simp add: p)
    with IVTensorList show ?thesis by simp
  next
    case (IVGenericDict d')
    with d show ?thesis by (simp add: isGenericDict_def)
  qed (simp_all add: p)
qed

lemma anyTensors_spec:
  assumes ne: "dynamicLayerStack s \<noteq> []"
    and nd: "list_all (\<lambda>ivalue. \<not> isGenericDict ivalue) xs"
  shows "anyTensors xs (batchedAtCurrentLevel s) =
           Inr (\<not> list_all
                    (\<lambda>ivalue. list_all
                       (\<lambda>t. \<not> batchedAtLevel s (layerId (last (dynamicLayerStack s))) t)
                       (tensors_of ivalue)) xs)"
proof -
  have "allTensors xs
          (\<lambda>self. case batchedAtCurrentLevel s self of Inl e \<Rightarrow> Inl e | Inr b \<Rightarrow> Inr (\<not> b))
        = Inr (list_all
                 (\<lambda>ivalue. list_all
                    (\<lambda>t. \<not> batchedAtLevel s (layerId (last (dynamicLayerStack s))) t)
                    (tensors_of ivalue)) xs)"
    by (rule allTensors_spec) (simp_all add: batchedAtCurrentLevel_spec[OF ne] nd)
  then show ?thesis by (simp add: anyTensors_def)
qed

lemma rel_ivalue_dict:
  "rel_ivalue R ivalue ivalue' \<Longrightarrow> isGenericDict ivalue' = isGenericDict ivalue"
  by (cases ivalue; cases ivalue') (simp_all add: isGenericDict_def)

lemma list_all2_no_dict:
  assumes "list_all2 (rel_ivalue R) xs ys"
    and "list_all (\<lambda>ivalue. \<not> isGenericDict ivalue) xs"
  shows "list_all (\<lambda>ivalue. \<not> isGenericDict ivalue) ys"
  using assms
  by (induction rule: list_all2_induct) (simp_all add: rel_ivalue_dict)

section \<open>The key-set router\<close>

lemma loop_list_inv:
  assumes "\<And>x s1. x \<in> set xs \<Longrightarrow> I s1 \<Longrightarrow> I (snd (body x s1))" and "I s"
  shows "I (snd (loop_list body xs s))"
  using assms
proof (induction xs arbitrary: s)
  case Nil
  then show ?case by simp
next
  case (Cons x xs)
  obtain r y s1 where b: "body x s = ((r, y), s1)" by (metis surj_pair)
  with Cons.prems(1)[of x s] Cons.prems(2) have s1: "I s1" by simp
  have ih: "I (snd (loop_list body xs s1))"
    by (rule Cons.IH) (simp_all add: Cons.prems(1) s1)
  obtain r' ys s2 where l: "loop_list body xs s1 = ((r', ys), s2)" by (metis surj_pair)
  with ih have "I s2" by simp
  with b s1 l show ?case by (cases r) simp_all
qed

lemma assign_result_inv:
  "I (snd (func x s)) \<Longrightarrow> I (snd (assign_result func x s))"
  by (cases "func x s") (auto simp add: assign_result_def split: sum.splits)

lemma body_inv:
  assumes f: "\<And>t s1. I s1 \<Longrightarrow> I (snd (func t s1))" and s: "I s"
  shows "I (snd (foreachTensorInplace_body func ivalue s))"
proof (cases ivalue)
  case (IVList list)
  have "I (snd (loop_list
          (\<lambda>elt. case elt of
                    IVTensor t \<Rightarrow>
                      (\<lambda>s'. case func t s' of
                               (Inl e, s1) \<Rightarrow> ((Some e, elt), s1)
                             | (Inr t', s1) \<Rightarrow> ((None, IVTensor t'), s1))
                  | _ \<Rightarrow> (\<lambda>s'. ((None, elt), s')))
          list s))"
  proof (rule loop_list_inv)
    fix x s1 assume s1: "I s1"
    show "I (snd ((case x of
             IVTensor t \<Rightarrow>
               (\<lambda>s'. case func t s' of
                        (Inl e, s1) \<Rightarrow> ((Some e, x), s1)
                      | (Inr t', s1) \<Rightarrow> ((None, IVTensor t'), s1))
           | _ \<Rightarrow> (\<lambda>s'. ((None, x), s'))) s1))"
    proof (cases x)
      case (IVTensor t)
      with f[OF s1, of t] show ?thesis by (auto split: prod.splits sum.splits)
    qed (simp_all add: s1)
  qed (rule s)
  with IVList show ?thesis
    by (auto simp add: foreachTensorInplace_body_def split: prod.splits option.splits)
next
  case (IVTensorList list)
  have "I (snd (loop_list (assign_result func) list s))"
    by (rule loop_list_inv) (simp_all add: assign_result_inv f s)
  with IVTensorList show ?thesis
    by (auto simp add: foreachTensorInplace_body_def split: prod.splits option.splits)
next
  case (IVTensor t)
  with f[OF s, of t] show ?thesis
    by (auto simp add: foreachTensorInplace_body_def split: prod.splits sum.splits)
qed (simp_all add: foreachTensorInplace_body_def s)

lemma foreach_inv:
  assumes f: "\<And>t s1. I s1 \<Longrightarrow> I (snd (func t s1))" and s: "I s"
  shows "I (snd (foreachTensorInplace args begin' end' func s))"
proof -
  have "I (snd (loop_list (foreachTensorInplace_body func)
               (take (nat end' - nat begin') (drop (nat begin') args)) s))"
    by (rule loop_list_inv) (simp_all add: body_inv f s)
  then show ?thesis
    using s by (auto simp add: foreachTensorInplace_def split: prod.splits)
qed

lemma foreach_state:
  assumes "\<And>t. snd (func t s) = s"
  shows "snd (foreachTensorInplace args begin' end' func s) = s"
  by (rule foreach_inv[where I = "\<lambda>s'. s' = s"]) (simp_all add: assms)

lemma maybeTransform_not_grad:
  assumes "dynamicLayerStack s \<noteq> []" and "key (last (dynamicLayerStack s)) \<noteq> Autograd"
  shows "maybeTransformGradWrappers t s = (Inr (unwrapIfDead t s), s)"
  using assms
  by (simp add: maybeTransformGradWrappers_def materializeGradWrappers_def
      getDynamicLayerStack_def Let_def)









section \<open>The front interceptor on an empty layer stack\<close>

lemma loop_list_check:
  assumes "\<And>x. x \<in> set xs \<Longrightarrow>
             body x s = ((if good x then None else Some InternalAssert, x), s)"
  shows "loop_list body xs s = ((if list_all good xs then None else Some InternalAssert, xs), s)"
  using assms
proof (induction xs)
  case Nil
  then show ?case by simp
next
  case (Cons x xs)
  have ih: "loop_list body xs s =
              ((if list_all good xs then None else Some InternalAssert, xs), s)"
    by (rule Cons.IH) (simp add: Cons.prems)
  have bx: "body x s = ((if good x then None else Some InternalAssert, x), s)"
    by (rule Cons.prems) simp
  show ?case using ih bx by simp
qed

lemma list_all_tensors_of_IVList:
  "list_all ok (tensors_of (IVList list)) =
   list_all (\<lambda>elt. case elt of IVTensor t \<Rightarrow> ok t | _ \<Rightarrow> True) list"
  by (induction list) (auto simp add: tensors_of_def split: IValue.splits)

lemma body_check:
  assumes func: "\<And>t. func t s = (if ok t then Inr t else Inl InternalAssert, s)"
  shows "foreachTensorInplace_body func ivalue s =
           ((if \<not> isGenericDict ivalue \<and> list_all ok (tensors_of ivalue)
             then None else Some InternalAssert, ivalue), s)"
proof (cases ivalue)
  case (IVList list)
  have "loop_list
          (\<lambda>elt. case elt of
                    IVTensor t \<Rightarrow>
                      (\<lambda>s'. case func t s' of
                               (Inl e, s1) \<Rightarrow> ((Some e, elt), s1)
                             | (Inr t', s1) \<Rightarrow> ((None, IVTensor t'), s1))
                  | _ \<Rightarrow> (\<lambda>s'. ((None, elt), s')))
          list s =
        ((if list_all (\<lambda>elt. case elt of IVTensor t \<Rightarrow> ok t | _ \<Rightarrow> True) list
          then None else Some InternalAssert, list), s)"
  proof (rule loop_list_check)
    fix x
    show "(case x of
             IVTensor t \<Rightarrow>
               (\<lambda>s'. case func t s' of
                        (Inl e, s1) \<Rightarrow> ((Some e, x), s1)
                      | (Inr t', s1) \<Rightarrow> ((None, IVTensor t'), s1))
           | _ \<Rightarrow> (\<lambda>s'. ((None, x), s'))) s =
          ((if (case x of IVTensor t \<Rightarrow> ok t | _ \<Rightarrow> True) then None
            else Some InternalAssert, x), s)"
      by (cases x) (simp_all add: func)
  qed
  with IVList show ?thesis
    by (simp add: foreachTensorInplace_body_def isGenericDict_def list_all_tensors_of_IVList)
next
  case (IVTensorList list)
  have "loop_list (assign_result func) list s =
          ((if list_all ok list then None else Some InternalAssert, list), s)"
    by (rule loop_list_check) (simp add: assign_result_def func)
  with IVTensorList show ?thesis
    by (simp add: foreachTensorInplace_body_def isGenericDict_def)
next
  case (IVTensor t)
  then show ?thesis
    by (simp add: foreachTensorInplace_body_def isGenericDict_def func)
qed (simp_all add: foreachTensorInplace_body_def isGenericDict_def)

lemma sanityCheckStack_eq:
  "sanityCheckStack op stack s =
     ((if arguments_clean op stack s then None else Some InternalAssert, stack), s)"
proof -
  let ?n = "length (arguments (schema op))"
  show ?thesis
  proof (cases "?n \<le> length stack")
    case False
    then show ?thesis
      by (simp add: sanityCheckStack_def foreachTensorInplace_def Let_def arguments_clean_def)
  next
    case True
    let ?mid = "drop (length stack - ?n) stack"
    have b: "nat (int (length stack) - int ?n) = length stack - ?n"
      using True by (simp add: nat_diff_distrib')
    have l: "loop_list (foreachTensorInplace_body sanityCheckStack_lambda) ?mid s =
               ((if list_all (\<lambda>ivalue. \<not> isGenericDict ivalue
                                \<and> list_all (no_wrapper s) (tensors_of ivalue)) ?mid
                 then None else Some InternalAssert, ?mid), s)"
      by (rule loop_list_check, rule body_check)
         (simp add: sanityCheckStack_lambda_def no_wrapper_def)
    show ?thesis
      using True
      by (simp add: sanityCheckStack_def foreachTensorInplace_def Let_def l last_n_def b
          arguments_clean_def)
  qed
qed

lemma arguments_clean_callBoxed [simp]:
  "arguments_clean (op\<lparr>callBoxed := call\<rparr>) stack s = arguments_clean op stack s"
  by (simp add: arguments_clean_def)

text \<open>
  Claim C8.  The layer stack is empty.  If the arguments are not clean (the stack holds
  fewer entries than the operation has arguments, or one of the arguments is a keyed
  dictionary, or some tensor among the arguments, also inside a list, carries a
  differentiation wrapper or a batching wrapper), the front interceptor fails an internal
  assertion, with stack and state unchanged and the operation not called.  If they are
  clean and no snapshot of the key set is saved, it fails an internal assertion as well.
  If they are clean and a snapshot is saved, the operation is called on the unchanged
  stack in a state that differs from the current one only in the key set, which has the
  keys of \<open>all_dynlayer_keyset\<close> as in the snapshot and every other key as before; the
  interceptor returns exactly the outcome and the stack of that call, and the key set of
  before the call is back in force afterwards.
\<close>

theorem dynamicLayerFrontFallback_empty_stack:
  assumes "dynamicLayerStack s = []"
  shows "(\<not> arguments_clean op stack s
          \<longrightarrow> (\<forall>call. dynamicLayerFrontFallback (op\<lparr>callBoxed := call\<rparr>) stack s =
                        ((Some InternalAssert, stack), s)))
       \<and> (arguments_clean op stack s
          \<longrightarrow> (prev_local_keyset s = None \<longrightarrow>
                 (\<forall>call. dynamicLayerFrontFallback (op\<lparr>callBoxed := call\<rparr>) stack s =
                        ((Some InternalAssert, stack), s)))
              \<and> (\<forall>prev. prev_local_keyset s = Some prev \<longrightarrow>
                   (\<exists>s_call.
                      tls_local_dispatch_key_set s_call =
                        \<lparr>included = (included (tls_local_dispatch_key_set s) - all_dynlayer_keyset)
                                     \<union> (included prev \<inter> all_dynlayer_keyset),
                         excluded = (excluded (tls_local_dispatch_key_set s) - all_dynlayer_keyset)
                                     \<union> (excluded prev \<inter> all_dynlayer_keyset)\<rparr>
                      \<and> included (tls_local_dispatch_key_set s_call) \<inter> all_dynlayer_keyset
                            = included prev \<inter> all_dynlayer_keyset
                      \<and> excluded (tls_local_dispatch_key_set s_call) \<inter> all_dynlayer_keyset
                            = excluded prev \<inter> all_dynlayer_keyset
                      \<and> s_call\<lparr>tls_local_dispatch_key_set := tls_local_dispatch_key_set s\<rparr> = s
                      \<and> fst (dynamicLayerFrontFallback op stack s)
                            = fst (callBoxed op stack s_call)
                      \<and> snd (dynamicLayerFrontFallback op stack s)
                            = (snd (callBoxed op stack s_call))
                                \<lparr>tls_local_dispatch_key_set := tls_local_dispatch_key_set s\<rparr>)))"
proof (intro conjI impI allI)
  fix call
  assume "\<not> arguments_clean op stack s"
  then show "dynamicLayerFrontFallback (op\<lparr>callBoxed := call\<rparr>) stack s =
                        ((Some InternalAssert, stack), s)"
    using assms by (simp add: dynamicLayerFrontFallback_def sanityCheckStack_eq)
next
  fix call
  assume "arguments_clean op stack s" and "prev_local_keyset s = None"
  then show "dynamicLayerFrontFallback (op\<lparr>callBoxed := call\<rparr>) stack s =
                        ((Some InternalAssert, stack), s)"
    using assms
    by (simp add: dynamicLayerFrontFallback_def sanityCheckStack_eq
        resetFunctorchLocalDispatchKeySetRAII_def Let_def)
next
  fix prev
  assume clean: "arguments_clean op stack s"
    and prev: "prev_local_keyset s = Some prev"
  let ?new = "\<lparr>included = (included (tls_local_dispatch_key_set s) - all_dynlayer_keyset)
                                     \<union> (included prev \<inter> all_dynlayer_keyset),
                         excluded = (excluded (tls_local_dispatch_key_set s) - all_dynlayer_keyset)
                                     \<union> (excluded prev \<inter> all_dynlayer_keyset)\<rparr>"
  let ?s_call = "s\<lparr>tls_local_dispatch_key_set := ?new\<rparr>"
  have reset: "resetFunctorchLocalDispatchKeySetRAII s =
                 (Inr (tls_local_dispatch_key_set s), ?s_call)"
    using prev by (simp add: resetFunctorchLocalDispatchKeySetRAII_def Let_def)
  have run: "dynamicLayerFrontFallback op stack s =
               (case callBoxed op stack ?s_call of
                  ((r, stack3), s3) \<Rightarrow>
                    ((r, stack3),
                     ForceLocalDispatchKeySet_dtor (tls_local_dispatch_key_set s) s3))"
    using assms clean
    by (simp add: dynamicLayerFrontFallback_def sanityCheckStack_eq reset)
  show "\<exists>s_call.
          tls_local_dispatch_key_set s_call = ?new
          \<and> included (tls_local_dispatch_key_set s_call) \<inter> all_dynlayer_keyset
                = included prev \<inter> all_dynlayer_keyset
          \<and> excluded (tls_local_dispatch_key_set s_call) \<inter> all_dynlayer_keyset
                = excluded prev \<inter> all_dynlayer_keyset
          \<and> s_call\<lparr>tls_local_dispatch_key_set := tls_local_dispatch_key_set s\<rparr> = s
          \<and> fst (dynamicLayerFrontFallback op stack s) = fst (callBoxed op stack s_call)
          \<and> snd (dynamicLayerFrontFallback op stack s)
                = (snd (callBoxed op stack s_call))
                    \<lparr>tls_local_dispatch_key_set := tls_local_dispatch_key_set s\<rparr>"
  proof (intro exI[of _ ?s_call] conjI)
    show "included (tls_local_dispatch_key_set ?s_call) \<inter> all_dynlayer_keyset
                = included prev \<inter> all_dynlayer_keyset"
      by auto
    show "excluded (tls_local_dispatch_key_set ?s_call) \<inter> all_dynlayer_keyset
                = excluded prev \<inter> all_dynlayer_keyset"
      by auto
    show "fst (dynamicLayerFrontFallback op stack s) = fst (callBoxed op stack ?s_call)"
      unfolding run by (simp split: prod.splits)
    show "snd (dynamicLayerFrontFallback op stack s)
                = (snd (callBoxed op stack ?s_call))
                    \<lparr>tls_local_dispatch_key_set := tls_local_dispatch_key_set s\<rparr>"
      unfolding run by (simp add: ForceLocalDispatchKeySet_dtor_def split: prod.splits)
  qed simp_all
qed

theorem dynamicLayerFrontFallback_empty_stack_witness:
  "dynamicLayerFrontFallback ex_mul [IVTensor (TensorAt 0), IVTensor (TensorAt 1)] ex_state_popped
     = ((Some InternalAssert, [IVTensor (TensorAt 0), IVTensor (TensorAt 1)]), ex_state_popped)
   \<and> dynamicLayerFrontFallback ex_mul [IVTensor (TensorAt 0), IVTensor (TensorAt 0)] ex_state_popped
     = ((None, [IVTensor (TensorAt 0)]), ex_state_popped)"
proof -
  have e: "dynamicLayerStack ex_state_popped = []"
    by (simp add: ex_state_popped_def)
  have p: "prev_local_keyset ex_state_popped = Some ex_tls"
    by (simp add: ex_state_popped_def)
  have n: "length (arguments (schema ex_mul)) = 2"
    by (simp add: ex_mul_def ex_mul_schema_def)
  have w: "\<not> no_wrapper ex_state_popped (TensorAt 1)" "no_wrapper ex_state_popped (TensorAt 0)"
    by (simp_all add: no_wrapper_def maybeGetTensorWrapper_def maybeGetBatchedImpl_def
        impl_at_def ex_state_popped_def)
  have nc: "\<not> arguments_clean ex_mul [IVTensor (TensorAt 0), IVTensor (TensorAt 1)] ex_state_popped"
    using w by (simp add: arguments_clean_def n last_n_def)
  have c: "arguments_clean ex_mul [IVTensor (TensorAt 0), IVTensor (TensorAt 0)] ex_state_popped"
    using w by (simp add: arguments_clean_def n last_n_def isGenericDict_def)
  have cb: "ex_mul\<lparr>callBoxed := callBoxed ex_mul\<rparr> = ex_mul" by simp
  have call: "\<And>stack s. callBoxed ex_mul stack s = ((None, butlast stack), s)"
    by (simp add: ex_mul_def)
  from dynamicLayerFrontFallback_empty_stack
         [OF e, of ex_mul "[IVTensor (TensorAt 0), IVTensor (TensorAt 1)]"] nc
  have "\<forall>call. dynamicLayerFrontFallback (ex_mul\<lparr>callBoxed := call\<rparr>)
                 [IVTensor (TensorAt 0), IVTensor (TensorAt 1)] ex_state_popped =
               ((Some InternalAssert, [IVTensor (TensorAt 0), IVTensor (TensorAt 1)]),
                ex_state_popped)"
    by blast
  then have first: "dynamicLayerFrontFallback ex_mul
                 [IVTensor (TensorAt 0), IVTensor (TensorAt 1)] ex_state_popped =
               ((Some InternalAssert, [IVTensor (TensorAt 0), IVTensor (TensorAt 1)]),
                ex_state_popped)"
    by (metis cb)
  from dynamicLayerFrontFallback_empty_stack
         [OF e, of ex_mul "[IVTensor (TensorAt 0), IVTensor (TensorAt 0)]"] c p
  obtain s_call where s_call:
      "s_call\<lparr>tls_local_dispatch_key_set := tls_local_dispatch_key_set ex_state_popped\<rparr>
         = ex_state_popped"
      "fst (dynamicLayerFrontFallback ex_mul [IVTensor (TensorAt 0), IVTensor (TensorAt 0)]
              ex_state_popped)
         = fst (callBoxed ex_mul [IVTensor (TensorAt 0), IVTensor (TensorAt 0)] s_call)"
      "snd (dynamicLayerFrontFallback ex_mul [IVTensor (TensorAt 0), IVTensor (TensorAt 0)]
              ex_state_popped)
         = (snd (callBoxed ex_mul [IVTensor (TensorAt 0), IVTensor (TensorAt 0)] s_call))
             \<lparr>tls_local_dispatch_key_set := tls_local_dispatch_key_set ex_state_popped\<rparr>"
    by blast
  have second: "dynamicLayerFrontFallback ex_mul [IVTensor (TensorAt 0), IVTensor (TensorAt 0)]
                  ex_state_popped = ((None, [IVTensor (TensorAt 0)]), ex_state_popped)"
    using s_call by (simp add: call prod_eq_iff)
  show ?thesis using first second by simp
qed

section \<open>Traversal of the arguments by a function that changes the state\<close>

lemma loop_list_rel_aux:
  assumes step: "\<And>x s1. x \<in> set xs \<Longrightarrow> ext s s1 \<Longrightarrow>
                   \<exists>y s2. body x s1 = ((None, y), s2) \<and> ext s1 s2 \<and> R s2 x y"
    and stable: "\<And>s1 s2 x y. R s1 x y \<Longrightarrow> ext s1 s2 \<Longrightarrow> R s2 x y"
    and trans: "\<And>a b c. ext a b \<Longrightarrow> ext b c \<Longrightarrow> ext a c"
    and refl: "\<And>a. ext a a"
    and s1: "ext s s1"
  shows "\<exists>ys s'. loop_list body xs s1 = ((None, ys), s') \<and> ext s1 s' \<and> list_all2 (R s') xs ys"
  using step s1
proof (induction xs arbitrary: s1)
  case Nil
  then show ?case by (simp add: refl)
next
  case (Cons x xs)
  from Cons.prems(1)[of x s1] Cons.prems(2)
  obtain y s2 where b: "body x s1 = ((None, y), s2)" "ext s1 s2" "R s2 x y" by auto
  have s2: "ext s s2" using trans[OF Cons.prems(2) b(2)] .
  have "\<exists>ys s'. loop_list body xs s2 = ((None, ys), s') \<and> ext s2 s' \<and> list_all2 (R s') xs ys"
  proof (rule Cons.IH)
    show "\<And>x s1. x \<in> set xs \<Longrightarrow> ext s s1 \<Longrightarrow>
             \<exists>y s2. body x s1 = ((None, y), s2) \<and> ext s1 s2 \<and> R s2 x y"
      using Cons.prems(1) by simp
    show "ext s s2" by (rule s2)
  qed
  then obtain ys s' where l: "loop_list body xs s2 = ((None, ys), s')" "ext s2 s'"
      "list_all2 (R s') xs ys" by blast
  have "R s' x y" using stable[OF b(3) l(2)] .
  moreover have "ext s1 s'" using trans[OF b(2) l(2)] .
  ultimately show ?case using b(1) l by simp
qed

lemma rel_elt_tensor: "rel_elt R (IVTensor t) e' = (\<exists>t'. e' = IVTensor t' \<and> R t t')"
  by (cases e') simp_all

lemma body_rel:
  assumes step: "\<And>t s1. t \<in> set (tensors_of ivalue) \<Longrightarrow> ext s s1 \<Longrightarrow>
                   \<exists>t' s2. func t s1 = (Inr t', s2) \<and> ext s1 s2 \<and> R s2 t t'"
    and stable: "\<And>s1 s2 x y. R s1 x y \<Longrightarrow> ext s1 s2 \<Longrightarrow> R s2 x y"
    and trans: "\<And>a b c. ext a b \<Longrightarrow> ext b c \<Longrightarrow> ext a c"
    and refl: "\<And>a. ext a a"
    and nd: "\<not> isGenericDict ivalue"
    and sane: "\<And>s' t t'. ivalue = IVTensor t \<Longrightarrow> R s' t t' \<Longrightarrow> defined t \<Longrightarrow> defined t'"
    and s1: "ext s s1"
  shows "\<exists>iv' s2. foreachTensorInplace_body func ivalue s1 = ((None, iv'), s2)
           \<and> ext s1 s2 \<and> rel_ivalue (R s2) ivalue iv'"
proof (cases ivalue)
  case (IVList list)
  let ?body = "\<lambda>elt. case elt of
                    IVTensor t \<Rightarrow>
                      (\<lambda>s'. case func t s' of
                               (Inl e, s1) \<Rightarrow> ((Some e, elt), s1)
                             | (Inr t', s1) \<Rightarrow> ((None, IVTensor t'), s1))
                  | _ \<Rightarrow> (\<lambda>s'. ((None, elt), s'))"
  have "\<exists>ys s'. loop_list ?body list s1 = ((None, ys), s') \<and> ext s1 s'
          \<and> list_all2 (\<lambda>e e'. rel_elt (R s') e e') list ys"
  proof (rule loop_list_rel_aux[where ext = ext and s = s and R = "\<lambda>s' e e'. rel_elt (R s') e e'"])
    fix x sa assume x: "x \<in> set list" and sa: "ext s sa"
    show "\<exists>y s2. ?body x sa = ((None, y), s2) \<and> ext sa s2 \<and> rel_elt (R s2) x y"
    proof (cases x)
      case (IVTensor t)
      then have "t \<in> set (tensors_of ivalue)" using x IVList by (simp add: tensors_of_IVList)
      from step[OF this sa] obtain t' s2 where "func t sa = (Inr t', s2)" "ext sa s2" "R s2 t t'"
        by blast
      then show ?thesis using IVTensor by simp
    qed (simp_all add: refl)
  next
    fix sa sb x y assume "rel_elt (R sa) x y" "ext sa sb"
    then show "rel_elt (R sb) x y"
      by (cases x; cases y) (auto intro: stable)
  qed (rule trans, assumption+, rule refl, rule s1)
  then show ?thesis using IVList
    by (auto simp add: foreachTensorInplace_body_def)
next
  case (IVTensorList list)
  have "\<exists>ys s'. loop_list (assign_result func) list s1 = ((None, ys), s') \<and> ext s1 s'
          \<and> list_all2 (R s') list ys"
  proof (rule loop_list_rel_aux[where ext = ext and s = s and R = R])
    fix x sa assume x: "x \<in> set list" and sa: "ext s sa"
    then have "x \<in> set (tensors_of ivalue)" using IVTensorList by simp
    from step[OF this sa] obtain t' s2 where "func x sa = (Inr t', s2)" "ext sa s2" "R s2 x t'"
      by blast
    then show "\<exists>y s2. assign_result func x sa = ((None, y), s2) \<and> ext sa s2 \<and> R s2 x y"
      by (simp add: assign_result_def)
  qed (rule stable, assumption+, rule trans, assumption+, rule refl, rule s1)
  then show ?thesis using IVTensorList
    by (auto simp add: foreachTensorInplace_body_def)
next
  case (IVTensor t)
  then have "t \<in> set (tensors_of ivalue)" by simp
  from step[OF this s1] obtain t' s2 where f: "func t s1 = (Inr t', s2)" "ext s1 s2" "R s2 t t'"
    by blast
  have "defined t \<Longrightarrow> defined t'" using sane[OF IVTensor f(3)] .
  then show ?thesis using IVTensor f
    by (auto simp add: foreachTensorInplace_body_def)
next
  case (IVGenericDict d)
  with nd show ?thesis by (simp add: isGenericDict_def)
qed (simp_all add: foreachTensorInplace_body_def refl)

lemma rel_ivalue_stable:
  assumes "\<And>x y. R1 x y \<Longrightarrow> R2 x y" and "rel_ivalue R1 iv iv'"
  shows "rel_ivalue R2 iv iv'"
proof -
  have elt: "\<And>e e'. rel_elt R1 e e' \<Longrightarrow> rel_elt R2 e e'"
  proof -
    fix e e' assume "rel_elt R1 e e'"
    then show "rel_elt R2 e e'" by (cases e; cases e') (auto intro: assms(1))
  qed
  show ?thesis
    using assms(2)
    by (cases iv; cases iv') (auto intro: assms(1) elt elim!: list_all2_mono)
qed

lemma foreach_rel:
  assumes range: "0 \<le> begin'" "begin' \<le> end'" "end' \<le> int (length args)"
    and step: "\<And>i t s1. nat begin' \<le> i \<Longrightarrow> i < nat end' \<Longrightarrow>
                 t \<in> set (tensors_of (args ! i)) \<Longrightarrow> ext s s1 \<Longrightarrow>
                   \<exists>t' s2. func t s1 = (Inr t', s2) \<and> ext s1 s2 \<and> R s2 t t'"
    and stable: "\<And>s1 s2 x y. R s1 x y \<Longrightarrow> ext s1 s2 \<Longrightarrow> R s2 x y"
    and trans: "\<And>a b c. ext a b \<Longrightarrow> ext b c \<Longrightarrow> ext a c"
    and refl: "\<And>a. ext a a"
    and nd: "\<And>i. nat begin' \<le> i \<Longrightarrow> i < nat end' \<Longrightarrow> \<not> isGenericDict (args ! i)"
    and sane: "\<And>s' t t'. R s' t t' \<Longrightarrow> defined t \<Longrightarrow> defined t'"
  shows "\<exists>mid s'. foreachTensorInplace args begin' end' func s =
                     ((None, take (nat begin') args @ mid @ drop (nat end') args), s')
           \<and> ext s s'
           \<and> list_all2 (rel_ivalue (R s'))
                (take (nat end' - nat begin') (drop (nat begin') args)) mid"
proof -
  let ?b = "nat begin'" and ?e = "nat end'"
  let ?mid = "take (?e - ?b) (drop ?b args)"
  have "\<exists>ys s'. loop_list (foreachTensorInplace_body func) ?mid s = ((None, ys), s')
          \<and> ext s s' \<and> list_all2 (\<lambda>iv iv'. rel_ivalue (R s') iv iv') ?mid ys"
  proof (rule loop_list_rel_aux[where ext = ext and s = s
            and R = "\<lambda>s' iv iv'. rel_ivalue (R s') iv iv'"])
    fix x sa assume x: "x \<in> set ?mid" and sa: "ext s sa"
    from slice_set[OF x] obtain i where i: "?b \<le> i" "i < ?e" "args ! i = x" by blast
    show "\<exists>y s2. foreachTensorInplace_body func x sa = ((None, y), s2) \<and> ext sa s2
            \<and> rel_ivalue (R s2) x y"
    proof (rule body_rel[where ext = ext and s = s])
      show "\<And>t s1. t \<in> set (tensors_of x) \<Longrightarrow> ext s s1 \<Longrightarrow>
              \<exists>t' s2. func t s1 = (Inr t', s2) \<and> ext s1 s2 \<and> R s2 t t'"
        using step[OF i(1) i(2)] i(3) by simp
      show "\<not> isGenericDict x" using nd[OF i(1) i(2)] i(3) by simp
      show "\<And>s' t t'. x = IVTensor t \<Longrightarrow> R s' t t' \<Longrightarrow> defined t \<Longrightarrow> defined t'"
        using sane by blast
    qed (rule stable, assumption+, rule trans, assumption+, rule refl, rule sa)
  next
    fix sa sb x y assume "rel_ivalue (R sa) x y" "ext sa sb"
    then show "rel_ivalue (R sb) x y"
      using rel_ivalue_stable[of "R sa" "R sb" x y] stable by blast
  qed (rule trans, assumption+, rule refl, rule refl)
  then obtain ys s' where l: "loop_list (foreachTensorInplace_body func) ?mid s = ((None, ys), s')"
      "ext s s'" "list_all2 (rel_ivalue (R s')) ?mid ys"
    by blast
  have "foreachTensorInplace args begin' end' func s =
          ((None, take ?b args @ ys @ drop ?e args), s')"
    using range l(1) by (simp add: foreachTensorInplace_def)
  with l show ?thesis by blast
qed

section \<open>The normalization pass of the front interceptor\<close>

lemma heap_ext_refl: "heap_ext s s"
  by (simp add: heap_ext_def)

lemma heap_ext_trans:
  assumes "heap_ext a b" and "heap_ext b c"
  shows "heap_ext a c"
proof -
  from assms have ab: "b = a\<lparr>impls := impls b\<rparr>" "take (length (impls a)) (impls b) = impls a"
    and bc: "c = b\<lparr>impls := impls c\<rparr>" "take (length (impls b)) (impls c) = impls b"
    by (simp_all add: heap_ext_def)
  have len: "length (impls a) \<le> length (impls b)"
    by (metis ab(2) length_take min.cobounded1)
  have "take (length (impls a)) (impls c)
          = take (length (impls a)) (take (length (impls b)) (impls c))"
    using len by (simp add: min_def)
  also have "\<dots> = impls a" using bc(2) ab(2) by simp
  finally have t: "take (length (impls a)) (impls c) = impls a" .
  have "c = a\<lparr>impls := impls c\<rparr>"
    by (subst bc(1), subst ab(1)) simp
  with t show ?thesis by (simp add: heap_ext_def)
qed

lemma heap_ext_fields:
  assumes "heap_ext s s'"
  shows "dynamicLayerStack s' = dynamicLayerStack s"
    and "life s' = life s"
    and "prev_local_keyset s' = prev_local_keyset s"
    and "tls_local_dispatch_key_set s' = tls_local_dispatch_key_set s"
    and "grad_mode s' = grad_mode s"
    and "length (impls s) \<le> length (impls s')"
proof -
  from assms have e: "s' = s\<lparr>impls := impls s'\<rparr>" and t: "take (length (impls s)) (impls s') = impls s"
    by (simp_all add: heap_ext_def)
  show "dynamicLayerStack s' = dynamicLayerStack s" by (subst e) simp
  show "life s' = life s" by (subst e) simp
  show "prev_local_keyset s' = prev_local_keyset s" by (subst e) simp
  show "tls_local_dispatch_key_set s' = tls_local_dispatch_key_set s" by (subst e) simp
  show "grad_mode s' = grad_mode s" by (subst e) simp
  show "length (impls s) \<le> length (impls s')" by (metis t length_take min.cobounded1)
qed

lemma heap_ext_impl_at:
  assumes "heap_ext s s'" and "a < length (impls s)"
  shows "impl_at s' a = impl_at s a"
proof -
  from assms(1) have t: "take (length (impls s)) (impls s') = impls s"
    by (simp add: heap_ext_def)
  have "impls s ! a = take (length (impls s)) (impls s') ! a" by (simp add: t)
  also have "\<dots> = impls s' ! a" using assms(2) by simp
  finally show ?thesis
    using assms(2) heap_ext_fields(6)[OF assms(1)] by (simp add: impl_at_def)
qed

lemma heap_ext_impl_at_Some:
  assumes "heap_ext s s'" and "impl_at s a = Some x"
  shows "impl_at s' a = Some x"
proof -
  from assms(2) have "a < length (impls s)" by (simp add: impl_at_def split: if_splits)
  with assms show ?thesis by (simp add: heap_ext_impl_at)
qed

lemma wrapper_address:
  "maybeGetTensorWrapper t s = Some w \<Longrightarrow> t = TensorAt w \<and> w < length (impls s)"
  by (cases t)
     (auto simp add: maybeGetTensorWrapper_def impl_at_def
       split: option.splits TensorImpl.splits if_splits)

lemma heap_ext_level:
  assumes e: "heap_ext s s'" and w: "maybeGetTensorWrapper t s = Some w"
  shows "TensorWrapper_level s' w = TensorWrapper_level s w"
    and "is_alive s' w = is_alive s w"
    and "TensorWrapper_value s' w = TensorWrapper_value s w"
proof -
  from wrapper_address[OF w] have a: "w < length (impls s)" by simp
  show al: "is_alive s' w = is_alive s w"
    by (simp add: is_alive_def heap_ext_impl_at[OF e a] heap_ext_fields(2)[OF e]
        split: option.splits TensorImpl.splits)
  show "TensorWrapper_level s' w = TensorWrapper_level s w"
    by (simp add: TensorWrapper_level_def heap_ext_impl_at[OF e a] al
        split: option.splits TensorImpl.splits)
  show "TensorWrapper_value s' w = TensorWrapper_value s w"
    by (simp add: TensorWrapper_value_def heap_ext_impl_at[OF e a])
qed

lemma heap_ext_reads:
  assumes e: "heap_ext s s'" and v: "valid_ref s t"
  shows "maybeGetTensorWrapper t s' = maybeGetTensorWrapper t s"
    and "maybeGetBatchedImpl t s' = maybeGetBatchedImpl t s"
    and "metadata_of s' t = metadata_of s t"
    and "unwrapIfDead t s' = unwrapIfDead t s"
proof -
  show w: "maybeGetTensorWrapper t s' = maybeGetTensorWrapper t s"
    using v by (cases t) (simp_all add: maybeGetTensorWrapper_def valid_ref_def heap_ext_impl_at[OF e])
  show "maybeGetBatchedImpl t s' = maybeGetBatchedImpl t s"
    using v by (cases t) (simp_all add: maybeGetBatchedImpl_def valid_ref_def heap_ext_impl_at[OF e])
  show "metadata_of s' t = metadata_of s t"
    using v by (cases t) (simp_all add: metadata_of_def valid_ref_def heap_ext_impl_at[OF e])
  show "unwrapIfDead t s' = unwrapIfDead t s"
  proof (cases "maybeGetTensorWrapper t s")
    case None
    then show ?thesis using w by (simp add: unwrapIfDead_def)
  next
    case (Some wrapped)
    then show ?thesis
      using w heap_ext_level(2)[OF e Some] heap_ext_level(3)[OF e Some]
      by (simp add: unwrapIfDead_def)
  qed
qed

lemma heap_ext_wrappedAtLevel:
  assumes "heap_ext s s'" and "valid_ref s t"
  shows "wrappedAtLevel s' t lvl = wrappedAtLevel s t lvl"
  using assms
  by (auto simp add: wrappedAtLevel_def heap_ext_reads(1) heap_ext_level(1)
      split: option.splits)

lemma getLifeHandleForLevel_top:
  assumes "dynamicLayerStack s \<noteq> []"
    and "layerId (last (dynamicLayerStack s)) = int (length (dynamicLayerStack s))"
  shows "getLifeHandleForLevel (layerId (last (dynamicLayerStack s))) s =
           (Inr (lifeHandle (last (dynamicLayerStack s))), s)"
proof -
  have l: "1 \<le> length (dynamicLayerStack s)"
    using assms(1) by (cases "dynamicLayerStack s") simp_all
  then have "nat (int (length (dynamicLayerStack s)) - 1) = length (dynamicLayerStack s) - 1"
    by simp
  then show ?thesis
    using assms l by (simp add: getLifeHandleForLevel_def Let_def last_conv_nth)
qed

lemma makeTensorWrapper_top:
  assumes "dynamicLayerStack s \<noteq> []"
    and "layerId (last (dynamicLayerStack s)) = int (length (dynamicLayerStack s))"
    and "defined u"
  shows "makeTensorWrapper u (layerId (last (dynamicLayerStack s))) s =
           (Inr (TensorAt (length (impls s))),
            s\<lparr>impls := impls s @ [TensorWrapper u (layerId (last (dynamicLayerStack s)))
                                   (lifeHandle (last (dynamicLayerStack s)))
                                   (metadata_of s u)]\<rparr>)"
  using assms(3)
  by (simp add: makeTensorWrapper_def getLifeHandleForLevel_top[OF assms(1) assms(2)])

lemma heap_ext_append: "heap_ext s (s\<lparr>impls := impls s @ new\<rparr>)"
  by (simp add: heap_ext_def)

lemma normalizable_alt:
  "normalizable s t =
     (let u = unwrapIfDead t s; top = last (dynamicLayerStack s) in
      valid_ref s t \<and> valid_ref s u \<and> (defined t \<longrightarrow> defined u)
      \<and> (key top = Autograd \<longrightarrow>
           (case maybeGetTensorWrapper u s of
              None \<Rightarrow> True
            | Some w \<Rightarrow>
                (case TensorWrapper_level s w of
                   None \<Rightarrow> False
                 | Some l \<Rightarrow> l \<le> layerId top))))"
  by (simp add: normalizable_def unwrapIfDead_spec)

lemma normalized_alt:
  "normalized s s' t t' =
     (let u = unwrapIfDead t s; top = last (dynamicLayerStack s) in
      if key top \<noteq> Autograd \<or> \<not> defined u \<or> wrappedAtLevel s u (layerId top) then t' = u
      else
        (case t' of
           UndefinedTensor \<Rightarrow> False
         | TensorAt a \<Rightarrow>
             length (impls s) \<le> a
             \<and> impl_at s' a =
                 Some (TensorWrapper u (layerId top) (lifeHandle top) (metadata_of s u))))"
  by (simp add: normalized_def unwrapIfDead_spec)

lemma normalize_step:
  assumes ne: "dynamicLayerStack s \<noteq> []"
    and lvl: "layerId (last (dynamicLayerStack s)) = int (length (dynamicLayerStack s))"
    and n: "normalizable s t"
    and e: "heap_ext s s1"
  shows "\<exists>t' s2. maybeTransformGradWrappers t s1 = (Inr t', s2) \<and> heap_ext s1 s2
           \<and> (normalizable s t \<and> normalized s s2 t t')"
proof -
  let ?u = "unwrapIfDead t s"
  let ?top = "last (dynamicLayerStack s)"
  from n have vt: "valid_ref s t" and vu: "valid_ref s ?u"
    by (simp_all add: normalizable_alt Let_def)
  have dls: "dynamicLayerStack s1 = dynamicLayerStack s" by (rule heap_ext_fields(1)[OF e])
  have u1: "unwrapIfDead t s1 = ?u" by (rule heap_ext_reads(4)[OF e vt])
  have w1: "maybeGetTensorWrapper ?u s1 = maybeGetTensorWrapper ?u s"
    by (rule heap_ext_reads(1)[OF e vu])
  have m1: "metadata_of s1 ?u = metadata_of s ?u" by (rule heap_ext_reads(3)[OF e vu])
  have ne1: "dynamicLayerStack s1 \<noteq> []" and lvl1:
    "layerId (last (dynamicLayerStack s1)) = int (length (dynamicLayerStack s1))"
    using ne lvl dls by simp_all
  have run: "maybeTransformGradWrappers t s1 =
               materializeGradWrappers ?u (dynamicLayerStack s) s1"
    by (simp add: maybeTransformGradWrappers_def getDynamicLayerStack_def u1 dls)
  have len: "length (impls s) \<le> length (impls s1)" by (rule heap_ext_fields(6)[OF e])
  have fresh: "defined ?u \<Longrightarrow>
     makeTensorWrapper ?u (layerId ?top) s1 =
       (Inr (TensorAt (length (impls s1))),
        s1\<lparr>impls := impls s1 @ [TensorWrapper ?u (layerId ?top) (lifeHandle ?top)
                                 (metadata_of s ?u)]\<rparr>)"
    using makeTensorWrapper_top[OF ne1 lvl1, of ?u] by (simp add: dls m1)
  have fresh_norm: "defined ?u \<Longrightarrow> key ?top = Autograd \<Longrightarrow> \<not> wrappedAtLevel s ?u (layerId ?top) \<Longrightarrow>
     normalized s (s1\<lparr>impls := impls s1 @ [TensorWrapper ?u (layerId ?top) (lifeHandle ?top)
                                 (metadata_of s ?u)]\<rparr>) t (TensorAt (length (impls s1)))"
    using len by (simp add: normalized_alt Let_def impl_at_def)
  show ?thesis
  proof (cases "key ?top \<noteq> Autograd \<or> \<not> defined ?u")
    case True
    then have "maybeTransformGradWrappers t s1 = (Inr ?u, s1)"
      using ne by (auto simp add: run materializeGradWrappers_def)
    moreover have "normalized s s1 t ?u" using True by (auto simp add: normalized_alt Let_def)
    ultimately show ?thesis using n heap_ext_refl by blast
  next
    case False
    then have k: "key ?top = Autograd" and d: "defined ?u" by simp_all
    show ?thesis
    proof (cases "maybeGetTensorWrapper ?u s")
      case None
      then have nw: "\<not> wrappedAtLevel s ?u (layerId ?top)" by (simp add: wrappedAtLevel_def)
      have "maybeTransformGradWrappers t s1 = makeTensorWrapper ?u (layerId ?top) s1"
        using ne k d None w1 by (simp add: run materializeGradWrappers_def Let_def)
      with fresh[OF d] fresh_norm[OF d k nw] n heap_ext_append show ?thesis by auto
    next
      case (Some w)
      from n k Some obtain l where l: "TensorWrapper_level s w = Some l" "l \<le> layerId ?top"
        by (auto simp add: normalizable_alt Let_def split: option.splits)
      have l1: "TensorWrapper_level s1 w = Some l"
        using heap_ext_level(1)[OF e Some] l(1) by simp
      show ?thesis
      proof (cases "l = layerId ?top")
        case True
        then have wr: "wrappedAtLevel s ?u (layerId ?top)"
          using Some l by (simp add: wrappedAtLevel_def)
        have "maybeTransformGradWrappers t s1 = (Inr ?u, s1)"
          using ne k d Some w1 l1 True by (simp add: run materializeGradWrappers_def Let_def)
        moreover have "normalized s s1 t ?u" using wr by (simp add: normalized_alt Let_def)
        ultimately show ?thesis using n heap_ext_refl by blast
      next
        case False
        then have nw: "\<not> wrappedAtLevel s ?u (layerId ?top)"
          using Some l by (simp add: wrappedAtLevel_def)
        have "maybeTransformGradWrappers t s1 = makeTensorWrapper ?u (layerId ?top) s1"
          using ne k d Some w1 l1 l(2) False
          by (simp add: run materializeGradWrappers_def Let_def)
        with fresh[OF d] fresh_norm[OF d k nw] n heap_ext_append show ?thesis by auto
      qed
    qed
  qed
qed

lemma normalized_stable:
  assumes "normalized s s1 t t'" and "heap_ext s1 s2"
  shows "normalized s s2 t t'"
  using assms
  by (auto simp add: normalized_alt Let_def heap_ext_impl_at_Some
      split: if_splits Tensor.splits)

lemma normalized_defined:
  assumes "normalizable s t" and "normalized s s' t t'" and "defined t"
  shows "defined t'"
  using assms
  by (auto simp add: normalizable_alt normalized_alt Let_def defined_def
      split: if_splits Tensor.splits)

lemma rel_elt_tensors:
  "list_all2 (rel_elt R) list list' \<Longrightarrow>
   list_all2 R (tensors_of (IVList list)) (tensors_of (IVList list'))"
proof (induction rule: list_all2_induct)
  case Nil
  then show ?case by (simp add: tensors_of_def)
next
  case (Cons x xs y ys)
  then show ?case
    by (cases x; cases y) (simp_all add: tensors_of_def)
qed

lemma rel_ivalue_tensors:
  "rel_ivalue R iv iv' \<Longrightarrow> list_all2 R (tensors_of iv) (tensors_of iv')"
  by (cases iv; cases iv') (simp_all add: rel_elt_tensors)

lemma normalized_wrapped:
  assumes n: "normalizable s t" and r: "normalized s s' t t'" and e: "heap_ext s s'"
    and k: "key (last (dynamicLayerStack s)) = Autograd"
    and alive: "lifeHandle (last (dynamicLayerStack s)) < length (life s)"
               "life s ! lifeHandle (last (dynamicLayerStack s))"
    and d: "defined t'"
  shows "wrappedAtLevel s' t' (layerId (last (dynamicLayerStack s)))"
proof -
  let ?u = "unwrapIfDead t s" and ?top = "last (dynamicLayerStack s)"
  from n have vu: "valid_ref s ?u" by (simp add: normalizable_alt Let_def)
  show ?thesis
  proof (cases "\<not> defined ?u \<or> wrappedAtLevel s ?u (layerId ?top)")
    case True
    with r have t': "t' = ?u" by (simp add: normalized_alt Let_def)
    with True d have "wrappedAtLevel s ?u (layerId ?top)" by simp
    then show ?thesis using t' heap_ext_wrappedAtLevel[OF e vu] by simp
  next
    case False
    with r k obtain a where a: "t' = TensorAt a"
        "impl_at s' a = Some (TensorWrapper ?u (layerId ?top) (lifeHandle ?top) (metadata_of s ?u))"
      by (auto simp add: normalized_alt Let_def split: Tensor.splits)
    have "life s' = life s" by (rule heap_ext_fields(2)[OF e])
    then show ?thesis
      using a alive
      by (simp add: wrappedAtLevel_def maybeGetTensorWrapper_def TensorWrapper_level_def
          is_alive_def)
  qed
qed

lemma normalization_pass:
  assumes ne: "dynamicLayerStack s \<noteq> []"
    and lvl: "layerId (last (dynamicLayerStack s)) = int (length (dynamicLayerStack s))"
    and len: "length (arguments (schema op)) \<le> length stack"
    and ok: "list_all (\<lambda>ivalue. \<not> isGenericDict ivalue
                         \<and> list_all (normalizable s) (tensors_of ivalue))
               (last_n stack (length (arguments (schema op))))"
  shows "\<exists>args' s'.
           foreachTensorInplace stack (int (length stack) - int (length (arguments (schema op))))
             (int (length stack)) maybeTransformGradWrappers s =
             ((None, take (length stack - length (arguments (schema op))) stack @ args'), s')
           \<and> heap_ext s s'
           \<and> list_all2 (rel_ivalue (normalized s s'))
                (last_n stack (length (arguments (schema op)))) args'
           \<and> (key (last (dynamicLayerStack s)) \<noteq> Autograd \<longrightarrow> s' = s)
           \<and> (key (last (dynamicLayerStack s)) = Autograd
                \<and> lifeHandle (last (dynamicLayerStack s)) < length (life s)
                \<and> life s ! lifeHandle (last (dynamicLayerStack s))
              \<longrightarrow> list_all
                    (\<lambda>ivalue'. list_all
                       (\<lambda>t'. defined t' \<longrightarrow>
                               wrappedAtLevel s' t' (layerId (last (dynamicLayerStack s))))
                       (tensors_of ivalue'))
                    args')"
proof -
  let ?n = "length (arguments (schema op))"
  let ?b = "int (length stack) - int ?n" and ?e = "int (length stack)"
  let ?R = "\<lambda>s' t t'. normalizable s t \<and> normalized s s' t t'"
  have nb: "nat ?b = length stack - ?n" using len by (simp add: nat_diff_distrib')
  have mid: "take (nat ?e - nat ?b) (drop (nat ?b) stack) = last_n stack ?n"
    using len by (simp add: nb last_n_def)
  have inrange: "\<And>i. nat ?b \<le> i \<Longrightarrow> i < nat ?e \<Longrightarrow> stack ! i \<in> set (last_n stack ?n)"
  proof -
    fix i assume i: "nat ?b \<le> i" "i < nat ?e"
    then have "last_n stack ?n ! (i - (length stack - ?n)) = stack ! i"
      using len by (simp add: last_n_def nb)
    moreover have "i - (length stack - ?n) < length (last_n stack ?n)"
      using i len by (simp add: last_n_def nb)
    ultimately show "stack ! i \<in> set (last_n stack ?n)" by (metis nth_mem)
  qed
  have "\<exists>mid s'. foreachTensorInplace stack ?b ?e maybeTransformGradWrappers s =
                     ((None, take (nat ?b) stack @ mid @ drop (nat ?e) stack), s')
           \<and> heap_ext s s'
           \<and> list_all2 (rel_ivalue (?R s'))
                (take (nat ?e - nat ?b) (drop (nat ?b) stack)) mid"
  proof (rule foreach_rel[where ext = heap_ext and R = ?R])
    show "0 \<le> ?b" "?b \<le> ?e" "?e \<le> int (length stack)" using len by simp_all
  next
    fix i t s1
    assume i: "nat ?b \<le> i" "i < nat ?e" and t: "t \<in> set (tensors_of (stack ! i))"
      and e: "heap_ext s s1"
    from inrange[OF i] ok t have "normalizable s t" by (auto simp add: list_all_iff)
    from normalize_step[OF ne lvl this e]
    show "\<exists>t' s2. maybeTransformGradWrappers t s1 = (Inr t', s2) \<and> heap_ext s1 s2
            \<and> (normalizable s t \<and> normalized s s2 t t')" .
  next
    fix i assume i: "nat ?b \<le> i" "i < nat ?e"
    from inrange[OF i] ok show "\<not> isGenericDict (stack ! i)" by (auto simp add: list_all_iff)
  next
    fix s1 s2 x y assume "normalizable s x \<and> normalized s s1 x y" "heap_ext s1 s2"
    then show "normalizable s x \<and> normalized s s2 x y" using normalized_stable by blast
  next
    fix s' t t' assume "normalizable s t \<and> normalized s s' t t'" "defined t"
    then show "defined t'" using normalized_defined by blast
  qed (rule heap_ext_trans, assumption+, rule heap_ext_refl)
  then obtain args' s' where run:
      "foreachTensorInplace stack ?b ?e maybeTransformGradWrappers s =
         ((None, take (nat ?b) stack @ args' @ drop (nat ?e) stack), s')"
    and e: "heap_ext s s'"
    and rel: "list_all2 (rel_ivalue (?R s')) (last_n stack ?n) args'"
    unfolding mid by blast
  have rel1: "list_all2 (rel_ivalue (normalized s s')) (last_n stack ?n) args'"
    using rel by (rule list_all2_mono) (erule rel_ivalue_stable[rotated], simp)
  have pure: "key (last (dynamicLayerStack s)) \<noteq> Autograd \<Longrightarrow> s' = s"
  proof -
    assume k: "key (last (dynamicLayerStack s)) \<noteq> Autograd"
    have "snd (foreachTensorInplace stack ?b ?e maybeTransformGradWrappers s) = s"
      by (rule foreach_state) (simp add: maybeTransform_not_grad[OF ne k])
    then show "s' = s" by (simp add: run)
  qed
  have wrapped: "list_all
                    (\<lambda>ivalue'. list_all
                       (\<lambda>t'. defined t' \<longrightarrow>
                               wrappedAtLevel s' t' (layerId (last (dynamicLayerStack s))))
                       (tensors_of ivalue'))
                    args'"
    if k: "key (last (dynamicLayerStack s)) = Autograd"
      and al: "lifeHandle (last (dynamicLayerStack s)) < length (life s)"
              "life s ! lifeHandle (last (dynamicLayerStack s))"
  proof -
    have "\<And>iv iv'. rel_ivalue (?R s') iv iv' \<Longrightarrow>
            list_all (\<lambda>t'. defined t' \<longrightarrow>
                       wrappedAtLevel s' t' (layerId (last (dynamicLayerStack s))))
              (tensors_of iv')"
    proof -
      fix iv iv' assume "rel_ivalue (?R s') iv iv'"
      from rel_ivalue_tensors[OF this]
      have "list_all2 (?R s') (tensors_of iv) (tensors_of iv')" .
      then have "\<forall>t' \<in> set (tensors_of iv'). \<exists>t. normalizable s t \<and> normalized s s' t t'"
        by (metis (no_types, lifting) in_set_conv_nth list_all2_conv_all_nth)
      then show "list_all (\<lambda>t'. defined t' \<longrightarrow>
                       wrappedAtLevel s' t' (layerId (last (dynamicLayerStack s))))
              (tensors_of iv')"
        using normalized_wrapped[OF _ _ e k al] by (auto simp add: list_all_iff)
    qed
    then have "\<forall>iv' \<in> set args'. list_all (\<lambda>t'. defined t' \<longrightarrow>
                       wrappedAtLevel s' t' (layerId (last (dynamicLayerStack s))))
              (tensors_of iv')"
      using rel by (metis (no_types, lifting) in_set_conv_nth list_all2_conv_all_nth)
    then show ?thesis by (simp add: list_all_iff)
  qed
  have "foreachTensorInplace stack ?b ?e maybeTransformGradWrappers s =
          ((None, take (length stack - ?n) stack @ args'), s')"
    using run by (simp add: nb)
  with e rel1 pure wrapped show ?thesis by blast
qed

lemma wrappedAtLevel_store:
  assumes "impls s1 = impls s2" and "life s1 = life s2"
  shows "wrappedAtLevel s1 t l = wrappedAtLevel s2 t l"
proof -
  have i: "\<And>a. impl_at s1 a = impl_at s2 a" using assms by (simp add: impl_at_def)
  have a: "\<And>w. is_alive s1 w = is_alive s2 w" unfolding is_alive_def i assms(2) ..
  have l: "\<And>w. TensorWrapper_level s1 w = TensorWrapper_level s2 w"
    unfolding TensorWrapper_level_def i a ..
  show ?thesis unfolding wrappedAtLevel_def maybeGetTensorWrapper_def i l ..
qed

text \<open>
  Claim C3, as amended.  The layer stack is not empty, its top descriptor has the level
  the stack invariant gives it and is a differentiation or a batching layer, and the
  operation's arguments are the last entries of the stack.  Let the mutation check pass,
  let no argument be a keyed dictionary, and let every tensor among the arguments (also
  inside a list) be \<open>normalizable\<close>.  Then the front interceptor calls the operation, under
  key sets, on the stack in which each tensor \<open>t\<close> of the arguments is replaced, in place,
  by what \<open>normalized\<close> describes: its inner value \<open>u\<close> if \<open>t\<close> carried a dead wrapper and \<open>t\<close>
  itself otherwise, and then, if and only if the top layer is a differentiation layer
  and \<open>u\<close> is defined and not already wrapped at the level of the top layer, a fresh
  wrapper over \<open>u\<close> at that level; the rest of the stack is as it was and the state has
  changed only by the new wrapper objects.  Under a batching layer the state has not
  changed.  Under a differentiation layer that is alive every defined tensor of the
  arguments the operation receives is wrapped at the level of the top layer.  If some
  argument is a keyed dictionary, the interceptor fails.
\<close>

theorem dynamicLayerFrontFallback_normalizes:
  assumes ne: "dynamicLayerStack s \<noteq> []"
    and lvl: "layerId (last (dynamicLayerStack s)) = int (length (dynamicLayerStack s))"
    and kind: "key (last (dynamicLayerStack s)) = Autograd
               \<or> key (last (dynamicLayerStack s)) = kBatchedKey"
    and la: "length args = length (arguments (schema op))"
  shows "(checkForInvalidMutationOnCaptures op (pre @ args) (dynamicLayerStack s) s = None
          \<and> list_all (\<lambda>ivalue. \<not> isGenericDict ivalue
                         \<and> list_all (normalizable s) (tensors_of ivalue)) args
          \<longrightarrow>
            (\<exists>args' s' include exclude.
                dynamicLayerFrontFallback op (pre @ args) s =
                  under_key_sets include exclude (callBoxed op (pre @ args')) s'
                \<and> heap_ext s s'
                \<and> list_all2 (rel_ivalue (normalized s s')) args args'
                \<and> (key (last (dynamicLayerStack s)) \<noteq> Autograd \<longrightarrow> s' = s)
                \<and> (key (last (dynamicLayerStack s)) = Autograd
                     \<and> lifeHandle (last (dynamicLayerStack s)) < length (life s)
                     \<and> life s ! lifeHandle (last (dynamicLayerStack s))
                   \<longrightarrow> list_all
                         (\<lambda>ivalue'. list_all
                            (\<lambda>t'. defined t' \<longrightarrow>
                                    wrappedAtLevel s' t' (layerId (last (dynamicLayerStack s))))
                            (tensors_of ivalue'))
                         args')))
       \<and> (\<not> list_all (\<lambda>ivalue. \<not> isGenericDict ivalue) args
          \<longrightarrow> fst (fst (dynamicLayerFrontFallback op (pre @ args) s)) \<noteq> None)"
proof (intro conjI impI)
  assume "\<not> list_all (\<lambda>ivalue. \<not> isGenericDict ivalue) args"
  then show "fst (fst (dynamicLayerFrontFallback op (pre @ args) s)) \<noteq> None"
    by (rule front_dict_fails[OF ne la])
next
  assume a: "checkForInvalidMutationOnCaptures op (pre @ args) (dynamicLayerStack s) s = None
          \<and> list_all (\<lambda>ivalue. \<not> isGenericDict ivalue
                         \<and> list_all (normalizable s) (tensors_of ivalue)) args"
  let ?stack = "pre @ args" and ?n = "length (arguments (schema op))"
  have ln: "last_n ?stack ?n = args" and tk: "take (length ?stack - ?n) ?stack = pre"
    using la by (simp_all add: last_n_def)
  have len: "?n \<le> length ?stack" using la by simp
  from a have chk: "checkForInvalidMutationOnCaptures op ?stack (dynamicLayerStack s) s = None"
    and ok: "list_all (\<lambda>ivalue. \<not> isGenericDict ivalue
                         \<and> list_all (normalizable s) (tensors_of ivalue)) (last_n ?stack ?n)"
    unfolding ln by simp_all
  from normalization_pass[OF ne lvl len ok]
  obtain args' s' where pass:
      "foreachTensorInplace ?stack (int (length ?stack) - int ?n) (int (length ?stack))
         maybeTransformGradWrappers s = ((None, pre @ args'), s')"
    and e: "heap_ext s s'"
    and rel: "list_all2 (rel_ivalue (normalized s s')) args args'"
    and pure: "key (last (dynamicLayerStack s)) \<noteq> Autograd \<longrightarrow> s' = s"
    and wrapped: "key (last (dynamicLayerStack s)) = Autograd
                \<and> lifeHandle (last (dynamicLayerStack s)) < length (life s)
                \<and> life s ! lifeHandle (last (dynamicLayerStack s))
              \<longrightarrow> list_all
                    (\<lambda>ivalue'. list_all
                       (\<lambda>t'. defined t' \<longrightarrow>
                               wrappedAtLevel s' t' (layerId (last (dynamicLayerStack s))))
                       (tensors_of ivalue'))
                    args'"
    unfolding ln tk by blast
  have dls: "dynamicLayerStack s' = dynamicLayerStack s" by (rule heap_ext_fields(1)[OF e])
  have nd: "list_all (\<lambda>ivalue. \<not> isGenericDict ivalue) args" using a by (simp add: list_all_iff)
  have nd': "list_all (\<lambda>ivalue. \<not> isGenericDict ivalue) args'"
    by (rule list_all2_no_dict[OF rel nd])
  have la': "length args' = ?n" using list_all2_lengthD[OF rel] la by simp
  have "\<exists>include exclude. dynamicLayerFrontFallback op ?stack s =
          under_key_sets include exclude (callBoxed op (pre @ args')) s'"
  proof (cases "key (last (dynamicLayerStack s)) = Autograd")
    case True
    from front_run(1)[OF ne chk pass dls True] show ?thesis by blast
  next
    case False
    with kind have k: "key (last (dynamicLayerStack s)) = kBatchedKey" by simp
    have ne': "dynamicLayerStack s' \<noteq> []" using ne dls by simp
    have ln': "last_n (pre @ args') ?n = args'" using la' by (simp add: last_n_def)
    from anyTensors_spec[OF ne' nd']
    obtain b where "anyTensors (last_n (pre @ args') ?n) (batchedAtCurrentLevel s') = Inr b"
      unfolding ln' by blast
    from front_run(2)[OF ne chk pass dls k this] show ?thesis by blast
  qed
  with e rel pure wrapped
  show "\<exists>args' s' include exclude.
                dynamicLayerFrontFallback op (pre @ args) s =
                  under_key_sets include exclude (callBoxed op (pre @ args')) s'
                \<and> heap_ext s s'
                \<and> list_all2 (rel_ivalue (normalized s s')) args args'
                \<and> (key (last (dynamicLayerStack s)) \<noteq> Autograd \<longrightarrow> s' = s)
                \<and> (key (last (dynamicLayerStack s)) = Autograd
                     \<and> lifeHandle (last (dynamicLayerStack s)) < length (life s)
                     \<and> life s ! lifeHandle (last (dynamicLayerStack s))
                   \<longrightarrow> list_all
                         (\<lambda>ivalue'. list_all
                            (\<lambda>t'. defined t' \<longrightarrow>
                                    wrappedAtLevel s' t' (layerId (last (dynamicLayerStack s))))
                            (tensors_of ivalue'))
                         args')"
    by blast
qed

theorem dynamicLayerFrontFallback_normalizes_witness:
  "fst (dynamicLayerFrontFallback ex_mul [IVTensor (TensorAt 1), IVTensor (TensorAt 0)]
          ex_state_dead) = (None, [IVTensor (TensorAt 2)])
   \<and> snd (dynamicLayerFrontFallback ex_mul [IVTensor (TensorAt 1), IVTensor (TensorAt 0)]
            ex_state_dead) =
       ex_state_dead\<lparr>impls := impls ex_state_dead
                          @ [TensorWrapper (TensorAt 0) 1 1 ex_meta,
                             TensorWrapper (TensorAt 0) 1 1 ex_meta]\<rparr>
   \<and> wrappedAtLevel
        (snd (dynamicLayerFrontFallback ex_mul [IVTensor (TensorAt 1), IVTensor (TensorAt 0)]
                ex_state_dead))
        (TensorAt 2) 1"
proof -
  let ?args = "[IVTensor (TensorAt 1), IVTensor (TensorAt 0)]"
  let ?run = "dynamicLayerFrontFallback ex_mul ?args ex_state_dead"
  let ?s' = "ex_state_dead\<lparr>impls := impls ex_state_dead
                         @ [TensorWrapper (TensorAt 0) 1 1 ex_meta,
                            TensorWrapper (TensorAt 0) 1 1 ex_meta]\<rparr>"
  have ne: "dynamicLayerStack ex_state_dead \<noteq> []"
    by (simp add: ex_state_dead_def)
  have lvl: "layerId (last (dynamicLayerStack ex_state_dead)) =
               int (length (dynamicLayerStack ex_state_dead))"
    by (simp add: ex_state_dead_def ex_grad_layer_def)
  have kind: "key (last (dynamicLayerStack ex_state_dead)) = Autograd
               \<or> key (last (dynamicLayerStack ex_state_dead)) = kBatchedKey"
    by (simp add: ex_state_dead_def ex_grad_layer_def)
  have la: "length ?args = length (arguments (schema ex_mul))"
    by (simp add: ex_mul_def ex_mul_schema_def)
  have chk: "checkForInvalidMutationOnCaptures ex_mul ([] @ ?args)
               (dynamicLayerStack ex_state_dead) ex_state_dead = None"
    by (simp add: checkForInvalidMutationOnCaptures_def isInplaceOp_def is_mutable_def
        ex_mul_def ex_mul_schema_def ex_state_dead_def ex_grad_layer_def)
  have u: "without_dead_wrapper ex_state_dead (TensorAt 1) = TensorAt 0"
          "without_dead_wrapper ex_state_dead (TensorAt 0) = TensorAt 0"
    by (simp_all add: without_dead_wrapper_def ex_state_dead_def)
  have nz: "normalizable ex_state_dead (TensorAt 1)" "normalizable ex_state_dead (TensorAt 0)"
    using u
    by (simp_all add: normalizable_def Let_def valid_ref_def defined_def
        maybeGetTensorWrapper_def impl_at_def ex_state_dead_def)
  have ok: "list_all (\<lambda>ivalue. \<not> isGenericDict ivalue
                         \<and> list_all (normalizable ex_state_dead) (tensors_of ivalue)) ?args"
    using nz by (simp add: isGenericDict_def)
  have top: "key (last (dynamicLayerStack ex_state_dead)) = Autograd
                \<and> lifeHandle (last (dynamicLayerStack ex_state_dead)) < length (life ex_state_dead)
                \<and> life ex_state_dead ! lifeHandle (last (dynamicLayerStack ex_state_dead))"
    by (simp add: ex_state_dead_def ex_grad_layer_def)
  from dynamicLayerFrontFallback_normalizes[OF ne lvl kind la, of "[]"] chk ok top
  obtain args' s' inc exc where
    eq: "dynamicLayerFrontFallback ex_mul ([] @ ?args) ex_state_dead =
           under_key_sets inc exc (callBoxed ex_mul ([] @ args')) s'"
    and w: "list_all
              (\<lambda>ivalue'. list_all
                 (\<lambda>t'. defined t' \<longrightarrow>
                         wrappedAtLevel s' t' (layerId (last (dynamicLayerStack ex_state_dead))))
                 (tensors_of ivalue'))
              args'"
    by blast
  have ev: "?run = ((None, [IVTensor (TensorAt 2)]), ?s')"
    by (simp add: dynamicLayerFrontFallback_def checkForInvalidMutationOnCaptures_def
        isInplaceOp_def is_mutable_def getIncludeExcludeSetsFor_def
        ExcludeDispatchKeyGuard_ctor_def ExcludeDispatchKeyGuard_dtor_def
        IncludeDispatchKeyGuard_ctor_def IncludeDispatchKeyGuard_dtor_def
        all_dynlayer_keyset_def autograd_dispatch_keyset_def
        foreachTensorInplace_def foreachTensorInplace_body_def
        maybeTransformGradWrappers_def materializeGradWrappers_def makeTensorWrapper_def
        unwrapIfDead_def is_alive_def TensorWrapper_value_def
        getLifeHandleForLevel_def maybeGetTensorWrapper_def impl_at_def metadata_of_def
        getDynamicLayerStack_def defined_def ex_state_dead_def ex_grad_layer_def Let_def
        ex_mul_def ex_mul_schema_def ex_tls_def insert_Diff_if)
  have call: "\<And>st s0. callBoxed ex_mul st s0 = ((None, butlast st), s0)"
    by (simp add: ex_mul_def)
  from eq ev have r: "under_key_sets inc exc (callBoxed ex_mul args') s' =
                        ((None, [IVTensor (TensorAt 2)]), ?s')"
    by simp
  from r have b: "butlast args' = [IVTensor (TensorAt 2)]"
    by (simp add: under_key_sets_def Let_def call)
  have "impls (snd (under_key_sets inc exc (callBoxed ex_mul args') s')) = impls s'"
       "life (snd (under_key_sets inc exc (callBoxed ex_mul args') s')) = life s'"
    by (simp_all add: under_key_sets_def Let_def call)
  then have i: "impls s' = impls ?s'" and l: "life s' = life ?s'"
    unfolding r by simp_all
  from b have "IVTensor (TensorAt 2) \<in> set args'"
    by (metis in_set_butlastD list.set_intros(1))
  with w have "wrappedAtLevel s' (TensorAt 2) 1"
    using lvl by (auto simp add: list_all_iff defined_def ex_state_dead_def)
  then have "wrappedAtLevel ?s' (TensorAt 2) 1"
    using wrappedAtLevel_store[OF i l] by simp
  with ev show ?thesis by simp
qed

text \<open>
  The claim as it was stated, for every tensor argument.  Under a differentiation layer
  a tensor whose dead wrapper holds a tensor with a dead wrapper is not wrapped at the
  level of the top layer: one wrapper is taken off, reading the level of the other
  throws, and the operation is not called.  Nor is a tensor whose live wrapper is
  stamped with a level above the top layer: the interceptor fails an assertion.
\<close>

theorem dynamicLayerFrontFallback_normalizes_counterexample:
  "dynamicLayerFrontFallback ex_mul [IVTensor (TensorAt 2), IVTensor (TensorAt 0)]
     ex_state_dead_dead =
     ((Some BadOptionalAccess, [IVTensor (TensorAt 2), IVTensor (TensorAt 0)]),
      ex_state_dead_dead)
   \<and> dynamicLayerFrontFallback ex_mul [IVTensor (TensorAt 1), IVTensor (TensorAt 0)]
       ex_state_escaped =
     ((Some InternalAssert, [IVTensor (TensorAt 1), IVTensor (TensorAt 0)]),
      ex_state_escaped)"
  by (simp add: dynamicLayerFrontFallback_def checkForInvalidMutationOnCaptures_def
      isInplaceOp_def is_mutable_def
      foreachTensorInplace_def foreachTensorInplace_body_def
      maybeTransformGradWrappers_def materializeGradWrappers_def makeTensorWrapper_def
      unwrapIfDead_def is_alive_def TensorWrapper_value_def TensorWrapper_level_def
      getLifeHandleForLevel_def maybeGetTensorWrapper_def impl_at_def metadata_of_def
      getDynamicLayerStack_def defined_def ex_state_dead_dead_def ex_state_escaped_def
      ex_grad_layer_def Let_def ex_mul_def ex_mul_schema_def)

section \<open>The back interceptor: the call without the top layer\<close>

lemma calls_only_when_weaken:
  assumes "calls_only_when P run" and "\<And>stack s. P stack s \<Longrightarrow> Q stack s"
  shows "calls_only_when Q run"
  using assms unfolding calls_only_when_def by blast

lemma unwrap_state: "snd (backFallback_unwrap cur_level t s) = s"
  by (simp add: backFallback_unwrap_def split: option.splits)

lemma step12_state: "snd (backFallback_step12 op cur_key cur_level stack s) = s"
  by (simp add: backFallback_step12_def Let_def foreach_state unwrap_state)

lemma step12_callBoxed [simp]:
  "backFallback_step12 (op\<lparr>callBoxed := call\<rparr>) = backFallback_step12 op"
  by (intro ext) (simp add: backFallback_step12_def)

lemma step456_callBoxed [simp]:
  "backFallback_step456 (op\<lparr>callBoxed := call\<rparr>) = backFallback_step456 op"
  by (intro ext)
     (simp add: backFallback_step456_def Let_def split: prod.splits option.splits)

lemma makeTensorWrapper_dls:
  "dynamicLayerStack (snd (makeTensorWrapper t l s)) = dynamicLayerStack s"
  by (simp add: makeTensorWrapper_def getLifeHandleForLevel_def Let_def)

lemma wrap_dls:
  "dynamicLayerStack (snd (backFallback_wrap cur_level t s)) = dynamicLayerStack s"
  by (simp add: backFallback_wrap_def makeTensorWrapper_dls)

lemma refresh_arg_dls: "dynamicLayerStack (refresh_arg ivalue s) = dynamicLayerStack s"
  by (simp add: refresh_arg_def refreshMetadata_def
      split: IValue.splits option.splits TensorImpl.splits)

lemma fold_refresh_dls: "dynamicLayerStack (fold refresh_arg xs s) = dynamicLayerStack s"
  by (induction xs arbitrary: s) (simp_all add: refresh_arg_dls)

lemma step456_dls:
  "dynamicLayerStack (snd (backFallback_step456 op cur_key cur_level stack s)) =
   dynamicLayerStack s"
proof -
  let ?f = "foreachTensorInplace stack (int (length stack) - int (length (returns (schema op))))
              (int (length stack)) (backFallback_wrap cur_level) s"
  have "dynamicLayerStack (snd ?f) = dynamicLayerStack s"
    by (rule foreach_inv[where I = "\<lambda>s'. dynamicLayerStack s' = dynamicLayerStack s"])
       (simp_all add: wrap_dls)
  then show ?thesis
    by (cases ?f)
       (auto simp add: backFallback_step456_def Let_def fold_refresh_dls
         split: option.splits)
qed

lemma WithoutTop_dtor_dls:
  assumes "layerId layer = 1 + int (length (dynamicLayerStack s))"
  shows "dynamicLayerStack (snd (WithoutTop_dtor layer r stack s)) = dynamicLayerStack s @ [layer]"
  using push_stack[OF assms]
  by (cases "pushDynamicLayer layer s")
     (auto simp add: WithoutTop_dtor_def split: sum.splits)

lemma pop_dls:
  "dynamicLayerStack s \<noteq> [] \<Longrightarrow> popDynamicLayer s = (Inr layer, s1) \<Longrightarrow>
   layer = last (dynamicLayerStack s) \<and> dynamicLayerStack s1 = butlast (dynamicLayerStack s)"
  by (auto simp add: popDynamicLayer_def Let_def split: if_splits)

lemma pop_fail_state: "popDynamicLayer s = (Inl e, s1) \<Longrightarrow> s1 = s"
  by (auto simp add: popDynamicLayer_def Let_def split: if_splits)

lemma reset_dls:
  "dynamicLayerStack (snd (resetFunctorchLocalDispatchKeySetRAII s)) = dynamicLayerStack s"
  by (simp add: resetFunctorchLocalDispatchKeySetRAII_def Let_def split: option.splits)

lemma redispatch_dls:
  assumes ne: "dynamicLayerStack s \<noteq> []"
    and lvl: "layerId (last (dynamicLayerStack s)) = int (length (dynamicLayerStack s))"
    and frame: "\<And>stack' s'. dynamicLayerStack (snd (callBoxed op stack' s')) = dynamicLayerStack s'"
  shows "dynamicLayerStack (snd (backFallback_redispatch op cur_key prev_grad_mode stack s)) =
         dynamicLayerStack s"
proof (cases "popDynamicLayer s")
  case (Pair res s1)
  show ?thesis
  proof (cases res)
    case (Inl e)
    with Pair pop_fail_state[of s e s1] show ?thesis
      by (simp add: backFallback_redispatch_def)
  next
    case (Inr layer)
    with Pair pop_dls[OF ne, of layer s1]
    have layer: "layer = last (dynamicLayerStack s)"
      and s1: "dynamicLayerStack s1 = butlast (dynamicLayerStack s)" by simp_all
    have lid: "layerId layer = 1 + int (length (butlast (dynamicLayerStack s)))"
      using ne lvl layer by (cases "dynamicLayerStack s" rule: rev_cases) simp_all
    have again: "butlast (dynamicLayerStack s) @ [layer] = dynamicLayerStack s"
      using ne layer by simp
    have dtor: "\<And>r stack' s'. dynamicLayerStack s' = butlast (dynamicLayerStack s) \<Longrightarrow>
            dynamicLayerStack (snd (WithoutTop_dtor layer r stack' s')) = dynamicLayerStack s"
      using WithoutTop_dtor_dls[of layer] lid again by simp
    show ?thesis
    proof (cases "resetFunctorchLocalDispatchKeySetRAII s1")
      case (Pair res2 s2)
      have s2: "dynamicLayerStack s2 = butlast (dynamicLayerStack s)"
        using reset_dls[of s1] Pair s1 by simp
      show ?thesis
      proof (cases res2)
        case (Inl e)
        then show ?thesis
          using \<open>popDynamicLayer s = (res, s1)\<close> \<open>res = Inr layer\<close> Pair dtor[OF s2]
          by (simp add: backFallback_redispatch_def)
      next
        case (Inr key_guard)
        let ?s3 = "setDynamicLayerFrontBackKeysIncluded True s2"
        let ?call = "if cur_key = Autograd \<and> prev_grad_mode = Some False then
                        (let prev_mode = grad_mode ?s3 in
                         (case callBoxed op stack (?s3\<lparr>grad_mode := False\<rparr>) of
                            ((r, stack4), s4) \<Rightarrow> ((r, stack4), s4\<lparr>grad_mode := prev_mode\<rparr>)))
                      else callBoxed op stack ?s3"
        obtain r stack4 s4 where c: "?call = ((r, stack4), s4)" by (metis surj_pair)
        have "dynamicLayerStack s4 = butlast (dynamicLayerStack s)"
        proof (cases "cur_key = Autograd \<and> prev_grad_mode = Some False")
          case True
          obtain r' st' s' where c': "callBoxed op stack (?s3\<lparr>grad_mode := False\<rparr>) = ((r', st'), s')"
            by (metis surj_pair)
          with frame[of stack "?s3\<lparr>grad_mode := False\<rparr>"]
          have "dynamicLayerStack s' = butlast (dynamicLayerStack s)" using s2 by simp
          with c c' True show ?thesis by (auto simp add: Let_def)
        next
          case False
          with c frame[of stack ?s3] s2 show ?thesis by auto
        qed
        then have "dynamicLayerStack (ForceLocalDispatchKeySet_dtor key_guard s4) =
                     butlast (dynamicLayerStack s)"
          by (simp add: ForceLocalDispatchKeySet_dtor_def)
        from dtor[OF this] show ?thesis
          using \<open>popDynamicLayer s = (res, s1)\<close> \<open>res = Inr layer\<close> Pair Inr c
          by (simp add: backFallback_redispatch_def Let_def)
      qed
    qed
  qed
qed

lemma backFallback_dls:
  assumes ne: "dynamicLayerStack s \<noteq> []"
    and lvl: "layerId (last (dynamicLayerStack s)) = int (length (dynamicLayerStack s))"
    and frame: "\<And>stack' s'. dynamicLayerStack (snd (callBoxed op stack' s')) = dynamicLayerStack s'"
  shows "dynamicLayerStack (snd (dynamicLayerBackFallback op stack s)) = dynamicLayerStack s"
proof -
  let ?top = "last (dynamicLayerStack s)"
  obtain r1 stack1 s1 where a: "backFallback_step12 op (key ?top) (layerId ?top) stack s =
      ((r1, stack1), s1)" by (metis surj_pair)
  with step12_state[of op "key ?top" "layerId ?top" stack s] have s1: "s1 = s" by simp
  obtain r2 stack2 s2 where b: "backFallback_redispatch op (key ?top) (prevGradMode ?top) stack1 s =
      ((r2, stack2), s2)" by (metis surj_pair)
  with redispatch_dls[OF ne lvl frame, of "key ?top" "prevGradMode ?top" stack1]
  have s2: "dynamicLayerStack s2 = dynamicLayerStack s" by simp
  have c: "dynamicLayerStack (snd (backFallback_step456 op (key ?top) (layerId ?top) stack2 s2)) =
             dynamicLayerStack s"
    using step456_dls[of op "key ?top" "layerId ?top" stack2 s2] s2 by simp
  show ?thesis
    using ne a s1 b s2 c
    by (cases r1; cases r2)
       (simp_all add: dynamicLayerBackFallback_def getDynamicLayerStack_def Let_def)
qed

lemma redispatch_state_props:
  assumes ne: "dynamicLayerStack s \<noteq> []"
    and ku: "key (last (dynamicLayerStack s)) \<noteq> Undefined"
    and pv: "prev_local_keyset s = Some p"
  shows "dynamicLayerStack (redispatch_state s) = butlast (dynamicLayerStack s)"
    and "included (tls_local_dispatch_key_set (redispatch_state s)) =
           (included (tls_local_dispatch_key_set s) - all_dynlayer_keyset)
           \<union> (included p \<inter> all_dynlayer_keyset)
           \<union> {kDynamicLayerFrontModeKey, kDynamicLayerBackModeKey}"
    and "excluded (tls_local_dispatch_key_set (redispatch_state s)) =
           (excluded (tls_local_dispatch_key_set s) - all_dynlayer_keyset)
           \<union> (excluded p \<inter> all_dynlayer_keyset)"
    and "grad_mode (redispatch_state s) =
           (if key (last (dynamicLayerStack s)) = Autograd
               \<and> prevGradMode (last (dynamicLayerStack s)) = Some False
            then False else grad_mode s)"
    and "life (redispatch_state s) = life s"
    and "impls (redispatch_state s) = impls s"
    and "prev_local_keyset (redispatch_state s) = prev_local_keyset s"
proof -
  let ?s1 = "snd (popDynamicLayer s)"
  have s1: "?s1 = (if butlast (dynamicLayerStack s) = []
                   then setDynamicLayerFrontBackKeysIncluded False
                          (s\<lparr>dynamicLayerStack := butlast (dynamicLayerStack s)\<rparr>)
                   else s\<lparr>dynamicLayerStack := butlast (dynamicLayerStack s)\<rparr>)"
    using popDynamicLayer_ok[OF ne ku] by simp
  have p1: "prev_local_keyset ?s1 = Some p" using pv by (simp add: s1)
  let ?s2 = "snd (resetFunctorchLocalDispatchKeySetRAII ?s1)"
  have s2: "?s2 = ?s1\<lparr>tls_local_dispatch_key_set :=
               \<lparr>included = (included (tls_local_dispatch_key_set ?s1) - all_dynlayer_keyset)
                             \<union> (included p \<inter> all_dynlayer_keyset),
                excluded = (excluded (tls_local_dispatch_key_set ?s1) - all_dynlayer_keyset)
                             \<union> (excluded p \<inter> all_dynlayer_keyset)\<rparr>\<rparr>"
    using p1 by (simp add: resetFunctorchLocalDispatchKeySetRAII_def Let_def)
  have inc1: "included (tls_local_dispatch_key_set ?s1) - all_dynlayer_keyset =
              included (tls_local_dispatch_key_set s) - all_dynlayer_keyset"
    by (auto simp add: s1 setFrontBack_included all_dynlayer_keyset_def)
  have exc1: "excluded (tls_local_dispatch_key_set ?s1) = excluded (tls_local_dispatch_key_set s)"
    by (simp add: s1 setFrontBack_included)
  have rs: "redispatch_state s =
              (if key (last (dynamicLayerStack s)) = Autograd
                  \<and> prevGradMode (last (dynamicLayerStack s)) = Some False
               then (setDynamicLayerFrontBackKeysIncluded True ?s2)\<lparr>grad_mode := False\<rparr>
               else setDynamicLayerFrontBackKeysIncluded True ?s2)"
    by (simp add: redispatch_state_def Let_def)
  show "dynamicLayerStack (redispatch_state s) = butlast (dynamicLayerStack s)"
    by (simp add: rs) (simp add: s2, simp add: s1)
  show "included (tls_local_dispatch_key_set (redispatch_state s)) =
           (included (tls_local_dispatch_key_set s) - all_dynlayer_keyset)
           \<union> (included p \<inter> all_dynlayer_keyset)
           \<union> {kDynamicLayerFrontModeKey, kDynamicLayerBackModeKey}"
    by (simp add: rs setFrontBack_included) (simp add: s2 inc1)
  show "excluded (tls_local_dispatch_key_set (redispatch_state s)) =
           (excluded (tls_local_dispatch_key_set s) - all_dynlayer_keyset)
           \<union> (excluded p \<inter> all_dynlayer_keyset)"
    by (simp add: rs setFrontBack_included) (simp add: s2 exc1)
  show "grad_mode (redispatch_state s) =
           (if key (last (dynamicLayerStack s)) = Autograd
               \<and> prevGradMode (last (dynamicLayerStack s)) = Some False
            then False else grad_mode s)"
    by (simp add: rs) (simp add: s2, simp add: s1)
  show "life (redispatch_state s) = life s"
    by (simp add: rs) (simp add: s2, simp add: s1)
  show "impls (redispatch_state s) = impls s"
    by (simp add: rs) (simp add: s2, simp add: s1)
  show "prev_local_keyset (redispatch_state s) = prev_local_keyset s"
    by (simp add: rs) (simp add: s2, simp add: s1)
qed

lemma redispatch_cong:
  assumes "\<And>layer s1 g s2. popDynamicLayer s = (Inr layer, s1) \<Longrightarrow>
             resetFunctorchLocalDispatchKeySetRAII s1 = (Inr g, s2) \<Longrightarrow>
             c1 stack (redispatch_state s) = c2 stack (redispatch_state s)"
  shows "backFallback_redispatch (op\<lparr>callBoxed := c1\<rparr>) (key (last (dynamicLayerStack s)))
           (prevGradMode (last (dynamicLayerStack s))) stack s =
         backFallback_redispatch (op\<lparr>callBoxed := c2\<rparr>) (key (last (dynamicLayerStack s)))
           (prevGradMode (last (dynamicLayerStack s))) stack s"
proof (cases "popDynamicLayer s")
  case pop: (Pair res s1)
  show ?thesis
  proof (cases res)
    case (Inl e)
    with pop show ?thesis by (simp add: backFallback_redispatch_def)
  next
    case layer: (Inr layer)
    show ?thesis
    proof (cases "resetFunctorchLocalDispatchKeySetRAII s1")
      case reset: (Pair res2 s2)
      show ?thesis
      proof (cases res2)
        case (Inl e)
        with pop layer reset show ?thesis by (simp add: backFallback_redispatch_def)
      next
        case g: (Inr g)
        have eq: "c1 stack (redispatch_state s) = c2 stack (redispatch_state s)"
          using assms pop layer reset g by simp
        have rs: "redispatch_state s =
              (if key (last (dynamicLayerStack s)) = Autograd
                  \<and> prevGradMode (last (dynamicLayerStack s)) = Some False
               then (setDynamicLayerFrontBackKeysIncluded True s2)\<lparr>grad_mode := False\<rparr>
               else setDynamicLayerFrontBackKeysIncluded True s2)"
          using pop reset by (simp add: redispatch_state_def Let_def)
        show ?thesis
        proof (cases "key (last (dynamicLayerStack s)) = Autograd";
               cases "prevGradMode (last (dynamicLayerStack s)) = Some False")
          assume c: "key (last (dynamicLayerStack s)) = Autograd"
                    "prevGradMode (last (dynamicLayerStack s)) = Some False"
          with eq rs have "c1 stack ((setDynamicLayerFrontBackKeysIncluded True s2)\<lparr>grad_mode := False\<rparr>)
                         = c2 stack ((setDynamicLayerFrontBackKeysIncluded True s2)\<lparr>grad_mode := False\<rparr>)"
            by simp
          with c pop layer reset g show ?thesis
            by (simp add: backFallback_redispatch_def Let_def)
        next
          assume c: "key (last (dynamicLayerStack s)) = Autograd"
                    "prevGradMode (last (dynamicLayerStack s)) \<noteq> Some False"
          with eq rs have "c1 stack (setDynamicLayerFrontBackKeysIncluded True s2)
                         = c2 stack (setDynamicLayerFrontBackKeysIncluded True s2)"
            by simp
          with c pop layer reset g show ?thesis
            by (simp add: backFallback_redispatch_def Let_def)
        next
          assume c: "key (last (dynamicLayerStack s)) \<noteq> Autograd"
                    "prevGradMode (last (dynamicLayerStack s)) = Some False"
          with eq rs have "c1 stack (setDynamicLayerFrontBackKeysIncluded True s2)
                         = c2 stack (setDynamicLayerFrontBackKeysIncluded True s2)"
            by simp
          with c pop layer reset g show ?thesis
            by (simp add: backFallback_redispatch_def Let_def)
        next
          assume c: "key (last (dynamicLayerStack s)) \<noteq> Autograd"
                    "prevGradMode (last (dynamicLayerStack s)) \<noteq> Some False"
          with eq rs have "c1 stack (setDynamicLayerFrontBackKeysIncluded True s2)
                         = c2 stack (setDynamicLayerFrontBackKeysIncluded True s2)"
            by simp
          with c pop layer reset g show ?thesis
            by (simp add: backFallback_redispatch_def Let_def)
        qed
      qed
    qed
  qed
qed

lemma pop_ok_conditions:
  "popDynamicLayer s = (Inr layer, s1) \<Longrightarrow>
   dynamicLayerStack s \<noteq> [] \<and> key (last (dynamicLayerStack s)) \<noteq> Undefined
   \<and> prev_local_keyset s1 = prev_local_keyset s"
  by (auto simp add: popDynamicLayer_def Let_def split: if_splits)

lemma reset_ok_conditions:
  "resetFunctorchLocalDispatchKeySetRAII s1 = (Inr g, s2) \<Longrightarrow> prev_local_keyset s1 \<noteq> None"
  by (auto simp add: resetFunctorchLocalDispatchKeySetRAII_def Let_def split: option.splits)

lemma back_calls_only_at:
  "calls_only_when
     (\<lambda>stack' s'. s' = redispatch_state s
        \<and> dynamicLayerStack s \<noteq> [] \<and> key (last (dynamicLayerStack s)) \<noteq> Undefined
        \<and> prev_local_keyset s \<noteq> None)
     (\<lambda>call. dynamicLayerBackFallback (op\<lparr>callBoxed := call\<rparr>) stack s)"
  unfolding calls_only_when_def
proof (intro allI impI)
  fix c1 c2 :: "IValue list \<Rightarrow> State \<Rightarrow> stack_result"
  assume agree: "\<forall>stack' s'. s' = redispatch_state s
        \<and> dynamicLayerStack s \<noteq> [] \<and> key (last (dynamicLayerStack s)) \<noteq> Undefined
        \<and> prev_local_keyset s \<noteq> None \<longrightarrow> c1 stack' s' = c2 stack' s'"
  let ?top = "last (dynamicLayerStack s)"
  obtain r1 stack1 s1 where a: "backFallback_step12 op (key ?top) (layerId ?top) stack s =
      ((r1, stack1), s1)" by (metis surj_pair)
  with step12_state[of op "key ?top" "layerId ?top" stack s] have s1: "s1 = s" by simp
  have "backFallback_redispatch (op\<lparr>callBoxed := c1\<rparr>) (key ?top) (prevGradMode ?top) stack1 s =
        backFallback_redispatch (op\<lparr>callBoxed := c2\<rparr>) (key ?top) (prevGradMode ?top) stack1 s"
  proof (rule redispatch_cong)
    fix layer sa g sb
    assume "popDynamicLayer s = (Inr layer, sa)"
      and "resetFunctorchLocalDispatchKeySetRAII sa = (Inr g, sb)"
    then have "dynamicLayerStack s \<noteq> [] \<and> key (last (dynamicLayerStack s)) \<noteq> Undefined
                 \<and> prev_local_keyset s \<noteq> None"
      using pop_ok_conditions reset_ok_conditions by metis
    then show "c1 stack1 (redispatch_state s) = c2 stack1 (redispatch_state s)"
      using agree by blast
  qed
  then show "dynamicLayerBackFallback (op\<lparr>callBoxed := c1\<rparr>) stack s =
             dynamicLayerBackFallback (op\<lparr>callBoxed := c2\<rparr>) stack s"
    using a s1
    by (cases r1)
       (simp_all add: dynamicLayerBackFallback_def getDynamicLayerStack_def Let_def
         split: prod.splits option.splits)
qed

text \<open>
  Claim C4, as amended.  The layer stack is not empty, its top descriptor has the level
  the stack invariant gives it, and the operation's boxed call leaves the layer stack as
  it finds it.  Then the layer stack after the back interceptor is the layer stack
  before it, whether the call or the interceptor returns or fails.  The operation is
  called only in a state whose layer stack is the stack without its top layer, whose key
  set has the keys of \<open>all_dynlayer_keyset\<close> as in the saved snapshot except that the
  front and back mode keys are included, and every other key as before, and in which
  the autograd mode is off if the top layer is a differentiation layer that recorded
  that it was off.
\<close>

theorem dynamicLayerBackFallback_without_top:
  assumes ne: "dynamicLayerStack s \<noteq> []"
    and lvl: "layerId (last (dynamicLayerStack s)) = int (length (dynamicLayerStack s))"
    and frame: "\<forall>stack' s'. dynamicLayerStack (snd (callBoxed op stack' s')) = dynamicLayerStack s'"
  shows "dynamicLayerStack (snd (dynamicLayerBackFallback op stack s)) = dynamicLayerStack s
       \<and> calls_only_when
           (\<lambda>stack' s'.
              dynamicLayerStack s' = butlast (dynamicLayerStack s)
              \<and> (case prev_local_keyset s of
                    None \<Rightarrow> False
                  | Some p \<Rightarrow>
                      included (tls_local_dispatch_key_set s') =
                        (included (tls_local_dispatch_key_set s) - all_dynlayer_keyset)
                        \<union> (included p \<inter> all_dynlayer_keyset)
                        \<union> {kDynamicLayerFrontModeKey, kDynamicLayerBackModeKey}
                      \<and> excluded (tls_local_dispatch_key_set s') =
                        (excluded (tls_local_dispatch_key_set s) - all_dynlayer_keyset)
                        \<union> (excluded p \<inter> all_dynlayer_keyset))
              \<and> (key (last (dynamicLayerStack s)) = Autograd
                   \<and> prevGradMode (last (dynamicLayerStack s)) = Some False
                  \<longrightarrow> \<not> grad_mode s'))
           (\<lambda>call. dynamicLayerBackFallback (op\<lparr>callBoxed := call\<rparr>) stack s)"
proof
  show "dynamicLayerStack (snd (dynamicLayerBackFallback op stack s)) = dynamicLayerStack s"
    by (rule backFallback_dls[OF ne lvl]) (simp add: frame)
  show "calls_only_when
           (\<lambda>stack' s'.
              dynamicLayerStack s' = butlast (dynamicLayerStack s)
              \<and> (case prev_local_keyset s of
                    None \<Rightarrow> False
                  | Some p \<Rightarrow>
                      included (tls_local_dispatch_key_set s') =
                        (included (tls_local_dispatch_key_set s) - all_dynlayer_keyset)
                        \<union> (included p \<inter> all_dynlayer_keyset)
                        \<union> {kDynamicLayerFrontModeKey, kDynamicLayerBackModeKey}
                      \<and> excluded (tls_local_dispatch_key_set s') =
                        (excluded (tls_local_dispatch_key_set s) - all_dynlayer_keyset)
                        \<union> (excluded p \<inter> all_dynlayer_keyset))
              \<and> (key (last (dynamicLayerStack s)) = Autograd
                   \<and> prevGradMode (last (dynamicLayerStack s)) = Some False
                  \<longrightarrow> \<not> grad_mode s'))
           (\<lambda>call. dynamicLayerBackFallback (op\<lparr>callBoxed := call\<rparr>) stack s)"
  proof (rule calls_only_when_weaken[OF back_calls_only_at])
    fix stack' s'
    assume a: "s' = redispatch_state s
        \<and> dynamicLayerStack s \<noteq> [] \<and> key (last (dynamicLayerStack s)) \<noteq> Undefined
        \<and> prev_local_keyset s \<noteq> None"
    then obtain p where p: "prev_local_keyset s = Some p" by auto
    from a have ku: "key (last (dynamicLayerStack s)) \<noteq> Undefined" by simp
    show "dynamicLayerStack s' = butlast (dynamicLayerStack s)
              \<and> (case prev_local_keyset s of
                    None \<Rightarrow> False
                  | Some p \<Rightarrow>
                      included (tls_local_dispatch_key_set s') =
                        (included (tls_local_dispatch_key_set s) - all_dynlayer_keyset)
                        \<union> (included p \<inter> all_dynlayer_keyset)
                        \<union> {kDynamicLayerFrontModeKey, kDynamicLayerBackModeKey}
                      \<and> excluded (tls_local_dispatch_key_set s') =
                        (excluded (tls_local_dispatch_key_set s) - all_dynlayer_keyset)
                        \<union> (excluded p \<inter> all_dynlayer_keyset))
              \<and> (key (last (dynamicLayerStack s)) = Autograd
                   \<and> prevGradMode (last (dynamicLayerStack s)) = Some False
                  \<longrightarrow> \<not> grad_mode s')"
      using a p redispatch_state_props[OF ne ku p] by simp
  qed
qed

theorem dynamicLayerBackFallback_without_top_witness:
  "dynamicLayerStack
     (snd (dynamicLayerBackFallback ex_mul [IVTensor (TensorAt 2), IVTensor (TensorAt 2)] ex_state2))
     = [ex_grad_layer 1 0, ex_grad_layer 2 1]
   \<and> fst (dynamicLayerBackFallback ex_mul [IVTensor (TensorAt 2), IVTensor (TensorAt 2)] ex_state2)
     = (None, [IVTensor (TensorAt 3)])"
proof -
  have ne: "dynamicLayerStack ex_state2 \<noteq> []" by (simp add: ex_state2_def)
  have lvl: "layerId (last (dynamicLayerStack ex_state2)) = int (length (dynamicLayerStack ex_state2))"
    by (simp add: ex_state2_def ex_grad_layer_def)
  have frame: "\<forall>stack' s'. dynamicLayerStack (snd (callBoxed ex_mul stack' s')) = dynamicLayerStack s'"
    by (simp add: ex_mul_def)
  from dynamicLayerBackFallback_without_top[OF ne lvl frame]
  have "dynamicLayerStack
          (snd (dynamicLayerBackFallback ex_mul [IVTensor (TensorAt 2), IVTensor (TensorAt 2)]
                  ex_state2))
        = dynamicLayerStack ex_state2"
    by blast
  then have a: "dynamicLayerStack
          (snd (dynamicLayerBackFallback ex_mul [IVTensor (TensorAt 2), IVTensor (TensorAt 2)]
                  ex_state2))
        = [ex_grad_layer 1 0, ex_grad_layer 2 1]"
    by (simp add: ex_state2_def)
  have b: "fst (dynamicLayerBackFallback ex_mul [IVTensor (TensorAt 2), IVTensor (TensorAt 2)]
                  ex_state2) = (None, [IVTensor (TensorAt 3)])"
    by (simp add: dynamicLayerBackFallback_def backFallback_step12_def
        backFallback_redispatch_def backFallback_step456_def WithoutTop_dtor_def
        ForceLocalDispatchKeySet_dtor_def resetFunctorchLocalDispatchKeySetRAII_def
        popDynamicLayer_def pushDynamicLayer_def setDynamicLayerFrontBackKeysIncluded_def
        tls_set_dispatch_key_included_def backFallback_unwrap_def backFallback_wrap_def
        foreachTensorInplace_def foreachTensorInplace_body_def makeTensorWrapper_def
        getLifeHandleForLevel_def maybeGetTensorWrapper_def impl_at_def is_alive_def
        TensorWrapper_level_def TensorWrapper_value_def metadata_of_def refresh_arg_def
        refreshMetadata_def getDynamicLayerStack_def defined_def Let_def
        ex_state2_def ex_grad_layer_def ex_mul_def ex_mul_schema_def ex_tls_def)
  from a b show ?thesis by simp
qed

text \<open>
  The claim as it was stated: during the call the key set is the saved snapshot.  An
  operation that fails unless it finds the snapshot in force fails under the back
  interceptor: the front mode key is included during the call and is not in the
  snapshot.
\<close>

theorem dynamicLayerBackFallback_snapshot_counterexample:
  "fst (fst (dynamicLayerBackFallback ex_probe [] ex_state1)) = Some (OpError 1)
   \<and> prev_local_keyset ex_state1 = Some ex_tls
   \<and> kDynamicLayerFrontModeKey
        \<in> included (tls_local_dispatch_key_set (redispatch_state ex_state1))
   \<and> kDynamicLayerFrontModeKey \<notin> included ex_tls"
  by (simp add: dynamicLayerBackFallback_def backFallback_step12_def
        backFallback_redispatch_def backFallback_step456_def WithoutTop_dtor_def
        ForceLocalDispatchKeySet_dtor_def resetFunctorchLocalDispatchKeySetRAII_def
        popDynamicLayer_def pushDynamicLayer_def setDynamicLayerFrontBackKeysIncluded_def
        tls_set_dispatch_key_included_def redispatch_state_def
        foreachTensorInplace_def getDynamicLayerStack_def Let_def
        ex_state1_def ex_grad_layer_def ex_probe_def ex_probe_call_def ex_tls_def
        all_dynlayer_keyset_def autograd_dispatch_keyset_def)

section \<open>The back interceptor: arguments, results and metadata\<close>

lemma refreshMetadata_impl_at:
  "impl_at (refreshMetadata w s) a =
     (case impl_at s w of
        Some (TensorWrapper v l h m) \<Rightarrow>
          if a = w then Some (TensorWrapper v l h (metadata_of s v)) else impl_at s a
      | _ \<Rightarrow> impl_at s a)"
  by (auto simp add: refreshMetadata_def impl_at_def split: option.splits TensorImpl.splits)

lemma refreshMetadata_life: "life (refreshMetadata w s) = life s"
  by (simp add: refreshMetadata_def split: option.splits TensorImpl.splits)

lemma refreshMetadata_wrapper:
  "maybeGetTensorWrapper t (refreshMetadata w s) = maybeGetTensorWrapper t s"
  by (cases t)
     (auto simp add: maybeGetTensorWrapper_def refreshMetadata_impl_at
       split: option.splits TensorImpl.splits)

lemma refreshMetadata_value:
  "TensorWrapper_value (refreshMetadata w s) a = TensorWrapper_value s a"
  by (auto simp add: TensorWrapper_value_def refreshMetadata_impl_at
      split: option.splits TensorImpl.splits)

lemma refreshMetadata_metadata_other:
  "t \<noteq> TensorAt w \<Longrightarrow> metadata_of (refreshMetadata w s) t = metadata_of s t"
  by (cases t)
     (auto simp add: metadata_of_def refreshMetadata_impl_at
       split: option.splits TensorImpl.splits)

lemma refreshMetadata_metadata_self:
  "maybeGetTensorWrapper t s = Some w \<Longrightarrow>
   metadata_of (refreshMetadata w s) t = metadata_of s (TensorWrapper_value s w)"
  by (cases t)
     (auto simp add: metadata_of_def refreshMetadata_impl_at maybeGetTensorWrapper_def
       TensorWrapper_value_def split: option.splits TensorImpl.splits)

lemma refresh_arg_wrapper:
  "maybeGetTensorWrapper t (refresh_arg ivalue s) = maybeGetTensorWrapper t s"
  by (simp add: refresh_arg_def refreshMetadata_wrapper split: IValue.splits option.splits)

lemma refresh_arg_value:
  "TensorWrapper_value (refresh_arg ivalue s) a = TensorWrapper_value s a"
  by (simp add: refresh_arg_def refreshMetadata_value split: IValue.splits option.splits)

lemma fold_refresh_wrapper:
  "maybeGetTensorWrapper t (fold refresh_arg xs s) = maybeGetTensorWrapper t s"
  by (induction xs arbitrary: s) (simp_all add: refresh_arg_wrapper)

lemma fold_refresh_value:
  "TensorWrapper_value (fold refresh_arg xs s) a = TensorWrapper_value s a"
  by (induction xs arbitrary: s) (simp_all add: refresh_arg_value)

text \<open>
  After the refreshing loop, the cached metadata of the wrapper of a tensor argument is
  the metadata of the wrapper's inner value, provided the inner value is not itself a
  wrapped tensor argument (whose own refresh may come later).
\<close>

lemma fold_refresh_fresh:
  assumes "IVTensor t \<in> set xs"
    and "maybeGetTensorWrapper t s = Some w"
    and "\<not> (IVTensor (TensorWrapper_value s w) \<in> set xs
            \<and> maybeGetTensorWrapper (TensorWrapper_value s w) s \<noteq> None)"
  shows "metadata_of (fold refresh_arg xs s) t =
         metadata_of (fold refresh_arg xs s) (TensorWrapper_value s w)"
  using assms
proof (induction xs rule: rev_induct)
  case Nil
  then show ?case by simp
next
  case (snoc x xs)
  let ?v = "TensorWrapper_value s w"
  let ?p = "fold refresh_arg xs s"
  have tw: "t = TensorAt w" using wrapper_address[OF snoc.prems(2)] by simp
  have hv: "\<not> (IVTensor ?v \<in> set xs \<and> maybeGetTensorWrapper ?v s \<noteq> None)"
    using snoc.prems(3) by auto
  have ih: "IVTensor t \<in> set xs \<Longrightarrow> metadata_of ?p t = metadata_of ?p ?v"
    using snoc.IH snoc.prems(2) hv by blast
  have vt: "?v \<noteq> t"
    using snoc.prems by auto
  show ?case
  proof (cases "\<exists>t' w'. x = IVTensor t' \<and> maybeGetTensorWrapper t' ?p = Some w'")
    case False
    then have same: "refresh_arg x ?p = ?p"
      by (auto simp add: refresh_arg_def split: IValue.splits option.splits)
    have "x \<noteq> IVTensor t"
      using False snoc.prems(2) by (auto simp add: fold_refresh_wrapper)
    then have "IVTensor t \<in> set xs" using snoc.prems(1) by simp
    then show ?thesis using ih by (simp add: same)
  next
    case True
    then obtain t' w' where x: "x = IVTensor t'" and w': "maybeGetTensorWrapper t' ?p = Some w'"
      by blast
    have t'w': "t' = TensorAt w'" using wrapper_address[OF w'] by simp
    have w's: "maybeGetTensorWrapper t' s = Some w'" using w' by (simp add: fold_refresh_wrapper)
    have fin: "refresh_arg x ?p = refreshMetadata w' ?p"
      using x w' by (simp add: refresh_arg_def)
    have vt': "?v \<noteq> TensorAt w'"
      using snoc.prems(3) x w's t'w' by auto
    have mv: "metadata_of (refreshMetadata w' ?p) ?v = metadata_of ?p ?v"
      by (rule refreshMetadata_metadata_other[OF vt'])
    show ?thesis
    proof (cases "w' = w")
      case True
      have "maybeGetTensorWrapper t ?p = Some w"
        using snoc.prems(2) by (simp add: fold_refresh_wrapper)
      from refreshMetadata_metadata_self[OF this]
      have "metadata_of (refreshMetadata w ?p) t = metadata_of ?p (TensorWrapper_value ?p w)" .
      then have "metadata_of (refreshMetadata w ?p) t = metadata_of ?p ?v"
        by (simp add: fold_refresh_value)
      with mv True show ?thesis by (simp add: fin)
    next
      case False
      then have "t \<noteq> t'" using tw t'w' by simp
      then have "IVTensor t \<in> set xs" using snoc.prems(1) x by simp
      from ih[OF this] have "metadata_of ?p t = metadata_of ?p ?v" .
      moreover have "metadata_of (refreshMetadata w' ?p) t = metadata_of ?p t"
        by (rule refreshMetadata_metadata_other) (use False tw in simp)
      ultimately show ?thesis using mv by (simp add: fin)
    qed
  qed
qed

lemma unwrap_eq:
  "unwrappable s cur t \<Longrightarrow> backFallback_unwrap cur t s = (Inr (unwrap_at s cur t), s)"
  by (cases t)
     (auto simp add: unwrappable_def backFallback_unwrap_def unwrap_at_def defined_def
       maybeGetTensorWrapper_def split: option.splits)

lemma unwrap_at_defined:
  "unwrappable s cur t \<Longrightarrow> defined t \<Longrightarrow> defined (unwrap_at s cur t)"
  by (auto simp add: unwrappable_def unwrap_at_def split: option.splits)

lemma step12_ok:
  assumes la: "length args = length (arguments (schema op))"
    and ua: "list_all (\<lambda>ivalue. \<not> isGenericDict ivalue
                         \<and> list_all (unwrappable s cur) (tensors_of ivalue)) args"
  shows "backFallback_step12 op Autograd cur (pre @ args) s =
           ((None, pre @ args @ map (map_tensors (unwrap_at s cur)) args), s)"
proof -
  let ?n = "length (arguments (schema op))"
  let ?stack1 = "(pre @ args) @ args"
  let ?b = "int (length ?stack1) - int ?n" and ?e = "int (length ?stack1)"
  have nb: "nat ?b = length (pre @ args)" and ne: "nat ?e = length ?stack1"
    using la by simp_all
  have inr: "\<And>i. nat ?b \<le> i \<Longrightarrow> i < nat ?e \<Longrightarrow> ?stack1 ! i \<in> set args"
    unfolding nb ne by (rule append_range_nth) simp_all
  have "foreachTensorInplace ?stack1 ?b ?e (backFallback_unwrap cur) s =
          ((None, take (nat ?b) ?stack1
                  @ map (map_tensors (unwrap_at s cur))
                      (take (nat ?e - nat ?b) (drop (nat ?b) ?stack1))
                  @ drop (nat ?e) ?stack1), s)"
  proof (rule foreach_pure)
    show "0 \<le> ?b" "?b \<le> ?e" "?e \<le> int (length ?stack1)" using la by simp_all
  next
    fix i t assume i: "nat ?b \<le> i" "i < nat ?e" and t: "t \<in> set (tensors_of (?stack1 ! i))"
    from inr[OF i] ua t have "unwrappable s cur t" by (auto simp add: list_all_iff)
    then show "backFallback_unwrap cur t s = (Inr (unwrap_at s cur t), s)" by (rule unwrap_eq)
  next
    fix i t assume i: "nat ?b \<le> i" "i < nat ?e" and t: "?stack1 ! i = IVTensor t" "defined t"
    from inr[OF i] ua t(1) have "unwrappable s cur t" by (auto simp add: list_all_iff)
    then show "defined (unwrap_at s cur t)" using t(2) by (rule unwrap_at_defined)
  next
    fix i assume i: "nat ?b \<le> i" "i < nat ?e"
    from inr[OF i] ua show "\<not> isGenericDict (?stack1 ! i)" by (auto simp add: list_all_iff)
  qed
  then have "foreachTensorInplace ?stack1 ?b ?e (backFallback_unwrap cur) s =
          ((None, pre @ args @ map (map_tensors (unwrap_at s cur)) args), s)"
    unfolding nb ne by simp
  then show ?thesis
    using la by (simp add: backFallback_step12_def Let_def ac_simps)
qed

lemma redispatch_eq:
  assumes ne: "dynamicLayerStack s \<noteq> []"
    and ku: "key (last (dynamicLayerStack s)) \<noteq> Undefined"
    and pv: "prev_local_keyset s = Some p"
  shows "backFallback_redispatch op (key (last (dynamicLayerStack s)))
           (prevGradMode (last (dynamicLayerStack s))) stack s =
     (case callBoxed op stack (redispatch_state s) of
        ((r, stack4), s4) \<Rightarrow>
          WithoutTop_dtor (last (dynamicLayerStack s)) r stack4
            ((if key (last (dynamicLayerStack s)) = Autograd
                 \<and> prevGradMode (last (dynamicLayerStack s)) = Some False
              then s4\<lparr>grad_mode := grad_mode s\<rparr> else s4)
               \<lparr>tls_local_dispatch_key_set :=
                  tls_local_dispatch_key_set (snd (popDynamicLayer s))\<rparr>))"
proof -
  let ?top = "last (dynamicLayerStack s)"
  obtain s1 where pop: "popDynamicLayer s = (Inr ?top, s1)"
    using popDynamicLayer_ok[OF ne ku] by simp
  have p1: "prev_local_keyset s1 = Some p" using pop_ok_conditions[OF pop] pv by simp
  have g1: "grad_mode s1 = grad_mode s"
    using pop popDynamicLayer_ok[OF ne ku] by (auto split: if_splits)
  obtain s2 where reset: "resetFunctorchLocalDispatchKeySetRAII s1 =
      (Inr (tls_local_dispatch_key_set s1), s2)"
    using p1 by (simp add: resetFunctorchLocalDispatchKeySetRAII_def Let_def)
  have g2: "grad_mode s2 = grad_mode s"
    using reset p1 g1 by (auto simp add: resetFunctorchLocalDispatchKeySetRAII_def Let_def)
  have rs: "redispatch_state s =
              (if key ?top = Autograd \<and> prevGradMode ?top = Some False
               then (setDynamicLayerFrontBackKeysIncluded True s2)\<lparr>grad_mode := False\<rparr>
               else setDynamicLayerFrontBackKeysIncluded True s2)"
    using pop reset by (simp add: redispatch_state_def Let_def)
  show ?thesis
  proof (cases "key ?top = Autograd"; cases "prevGradMode ?top = Some False")
    assume c: "key ?top = Autograd" "prevGradMode ?top = Some False"
    then show ?thesis
      using pop reset rs g2
      by (simp add: backFallback_redispatch_def Let_def ForceLocalDispatchKeySet_dtor_def
          split: prod.splits)
  next
    assume c: "key ?top = Autograd" "prevGradMode ?top \<noteq> Some False"
    then show ?thesis
      using pop reset rs
      by (simp add: backFallback_redispatch_def Let_def ForceLocalDispatchKeySet_dtor_def
          split: prod.splits)
  next
    assume c: "key ?top \<noteq> Autograd" "prevGradMode ?top = Some False"
    then show ?thesis
      using pop reset rs
      by (simp add: backFallback_redispatch_def Let_def ForceLocalDispatchKeySet_dtor_def
          split: prod.splits)
  next
    assume c: "key ?top \<noteq> Autograd" "prevGradMode ?top \<noteq> Some False"
    then show ?thesis
      using pop reset rs
      by (simp add: backFallback_redispatch_def Let_def ForceLocalDispatchKeySet_dtor_def
          split: prod.splits)
  qed
qed

lemma WithoutTop_dtor_ok:
  assumes "layerId layer = 1 + int (length (dynamicLayerStack s))"
    and "prev_local_keyset s \<noteq> None"
  shows "\<exists>s'. WithoutTop_dtor layer r stack s = ((r, stack), s')
           \<and> dynamicLayerStack s' = dynamicLayerStack s @ [layer]
           \<and> impls s' = impls s \<and> life s' = life s"
  using assms
  by (auto simp add: WithoutTop_dtor_def pushDynamicLayer_def Let_def)

lemma wrap_step:
  assumes ne: "dynamicLayerStack s \<noteq> []"
    and lvl: "layerId (last (dynamicLayerStack s)) = int (length (dynamicLayerStack s))"
    and e: "heap_ext s s1"
  shows "\<exists>t' s2. backFallback_wrap (layerId (last (dynamicLayerStack s))) t s1 = (Inr t', s2)
           \<and> heap_ext s1 s2
           \<and> rewrapped s (layerId (last (dynamicLayerStack s)))
                (lifeHandle (last (dynamicLayerStack s))) s2 t t'"
proof (cases "defined t")
  case False
  then show ?thesis
    by (auto simp add: backFallback_wrap_def rewrapped_def heap_ext_refl)
next
  case True
  have dls: "dynamicLayerStack s1 = dynamicLayerStack s" by (rule heap_ext_fields(1)[OF e])
  have ne1: "dynamicLayerStack s1 \<noteq> []" and lvl1:
    "layerId (last (dynamicLayerStack s1)) = int (length (dynamicLayerStack s1))"
    using ne lvl dls by simp_all
  have len: "length (impls s) \<le> length (impls s1)" by (rule heap_ext_fields(6)[OF e])
  from makeTensorWrapper_top[OF ne1 lvl1 True]
  have m: "backFallback_wrap (layerId (last (dynamicLayerStack s))) t s1 =
           (Inr (TensorAt (length (impls s1))),
            s1\<lparr>impls := impls s1 @ [TensorWrapper t (layerId (last (dynamicLayerStack s)))
                                   (lifeHandle (last (dynamicLayerStack s)))
                                   (metadata_of s1 t)]\<rparr>)"
    using True by (simp add: backFallback_wrap_def dls)
  have "rewrapped s (layerId (last (dynamicLayerStack s)))
                (lifeHandle (last (dynamicLayerStack s)))
          (s1\<lparr>impls := impls s1 @ [TensorWrapper t (layerId (last (dynamicLayerStack s)))
                                   (lifeHandle (last (dynamicLayerStack s)))
                                   (metadata_of s1 t)]\<rparr>)
          t (TensorAt (length (impls s1)))"
    using True len by (simp add: rewrapped_def impl_at_def)
  with m heap_ext_append show ?thesis by blast
qed

lemma rewrapped_stable:
  assumes "rewrapped s cur h s1 t t'" and "heap_ext s1 s2"
  shows "rewrapped s cur h s2 t t'"
proof (cases "defined t")
  case False
  with assms(1) show ?thesis by (simp add: rewrapped_def)
next
  case True
  with assms(1) obtain a v l h' m where a: "t' = TensorAt a" "length (impls s) \<le> a"
      "impl_at s1 a = Some (TensorWrapper v l h' m)" "v = t" "l = cur" "h' = h"
    by (auto simp add: rewrapped_def split: Tensor.splits option.splits TensorImpl.splits)
  from heap_ext_impl_at_Some[OF assms(2) a(3)] a True show ?thesis
    by (simp add: rewrapped_def)
qed

lemma rewrapped_defined: "rewrapped s cur h s' t t' \<Longrightarrow> defined t \<Longrightarrow> defined t'"
  by (auto simp add: rewrapped_def defined_def split: Tensor.splits)

lemma step456_ok:
  assumes ne: "dynamicLayerStack s \<noteq> []"
    and lvl: "layerId (last (dynamicLayerStack s)) = int (length (dynamicLayerStack s))"
    and la: "length args = length (arguments (schema op))"
    and lr: "length rets = length (returns (schema op))"
    and nd: "list_all (\<lambda>ivalue. \<not> isGenericDict ivalue) rets"
  shows "\<exists>rets' s6.
           backFallback_step456 op Autograd (layerId (last (dynamicLayerStack s)))
             (pre @ args @ rets) s =
             ((None, pre @ rets'), fold refresh_arg args s6)
           \<and> heap_ext s s6
           \<and> list_all2 (rel_ivalue (rewrapped s (layerId (last (dynamicLayerStack s)))
                                      (lifeHandle (last (dynamicLayerStack s))) s6))
                rets rets'"
proof -
  let ?cur = "layerId (last (dynamicLayerStack s))"
  let ?h = "lifeHandle (last (dynamicLayerStack s))"
  let ?m = "length (returns (schema op))" and ?n = "length (arguments (schema op))"
  let ?stack = "pre @ args @ rets"
  let ?b = "int (length ?stack) - int ?m" and ?e = "int (length ?stack)"
  have nb: "nat ?b = length (pre @ args)" and ne': "nat ?e = length ?stack"
    using lr by simp_all
  have mid: "take (nat ?e - nat ?b) (drop (nat ?b) ?stack) = rets"
    unfolding nb ne' by simp
  have inr: "\<And>i. nat ?b \<le> i \<Longrightarrow> i < nat ?e \<Longrightarrow> ?stack ! i \<in> set rets"
  proof -
    fix i assume "nat ?b \<le> i" "i < nat ?e"
    then have "length (pre @ args) \<le> i" "i < length (pre @ args) + length rets"
      unfolding nb ne' by simp_all
    from append_range_nth[OF this] show "?stack ! i \<in> set rets" by simp
  qed
  have "\<exists>mid s'. foreachTensorInplace ?stack ?b ?e (backFallback_wrap ?cur) s =
                     ((None, take (nat ?b) ?stack @ mid @ drop (nat ?e) ?stack), s')
           \<and> heap_ext s s'
           \<and> list_all2 (rel_ivalue (rewrapped s ?cur ?h s'))
                (take (nat ?e - nat ?b) (drop (nat ?b) ?stack)) mid"
  proof (rule foreach_rel[where ext = heap_ext and R = "rewrapped s ?cur ?h"])
    show "0 \<le> ?b" "?b \<le> ?e" "?e \<le> int (length ?stack)" using lr by simp_all
  next
    fix i t s1 assume "heap_ext s s1"
    from wrap_step[OF ne lvl this]
    show "\<exists>t' s2. backFallback_wrap ?cur t s1 = (Inr t', s2) \<and> heap_ext s1 s2
            \<and> rewrapped s ?cur ?h s2 t t'" .
  next
    fix i assume i: "nat ?b \<le> i" "i < nat ?e"
    from inr[OF i] nd show "\<not> isGenericDict (?stack ! i)" by (auto simp add: list_all_iff)
  qed (rule rewrapped_stable, assumption+, rule heap_ext_trans, assumption+,
       rule heap_ext_refl, rule rewrapped_defined, assumption+)
  then obtain rets' s6 where run:
      "foreachTensorInplace ?stack ?b ?e (backFallback_wrap ?cur) s =
         ((None, take (nat ?b) ?stack @ rets' @ drop (nat ?e) ?stack), s6)"
    and e: "heap_ext s s6"
    and rel: "list_all2 (rel_ivalue (rewrapped s ?cur ?h s6)) rets rets'"
    unfolding mid by blast
  have lr': "length rets' = ?m" using list_all2_lengthD[OF rel] lr by simp
  have run': "foreachTensorInplace ?stack ?b ?e (backFallback_wrap ?cur) s =
         ((None, pre @ args @ rets'), s6)"
    using run unfolding nb ne' by simp
  have "backFallback_step456 op Autograd ?cur ?stack s =
          ((None, pre @ rets'), fold refresh_arg args s6)"
    using run' la lr' by (simp add: backFallback_step456_def Let_def)
  with e rel show ?thesis by blast
qed

lemma refresh_arg_impl_wrapper:
  assumes "impl_at s a = Some (TensorWrapper v l h m)"
  shows "\<exists>m'. impl_at (refresh_arg x s) a = Some (TensorWrapper v l h m')"
  using assms
  by (auto simp add: refresh_arg_def refreshMetadata_impl_at
      split: IValue.splits option.splits TensorImpl.splits)

lemma fold_refresh_impl_wrapper:
  assumes "impl_at s a = Some (TensorWrapper v l h m)"
  shows "\<exists>m'. impl_at (fold refresh_arg xs s) a = Some (TensorWrapper v l h m')"
  using assms
proof (induction xs arbitrary: s m)
  case Nil
  then show ?case by simp
next
  case (Cons x xs)
  from refresh_arg_impl_wrapper[OF Cons.prems]
  obtain m1 where "impl_at (refresh_arg x s) a = Some (TensorWrapper v l h m1)" by blast
  from Cons.IH[OF this] show ?case by simp
qed

lemma rewrapped_fold_refresh:
  assumes "rewrapped s0 cur h s t t'"
  shows "rewrapped s0 cur h (fold refresh_arg xs s) t t'"
proof (cases "defined t")
  case False
  with assms show ?thesis by (simp add: rewrapped_def)
next
  case True
  with assms obtain a v l h' m where a: "t' = TensorAt a" "length (impls s0) \<le> a"
      "impl_at s a = Some (TensorWrapper v l h' m)" "v = t" "l = cur" "h' = h"
    by (auto simp add: rewrapped_def split: Tensor.splits option.splits TensorImpl.splits)
  from fold_refresh_impl_wrapper[OF a(3), of xs]
  obtain m' where "impl_at (fold refresh_arg xs s) a = Some (TensorWrapper v l h' m')"
    by blast
  with a True show ?thesis by (simp add: rewrapped_def)
qed

lemma refresh_arg_impls_length: "length (impls (refresh_arg x s)) = length (impls s)"
  by (simp add: refresh_arg_def refreshMetadata_def
      split: IValue.splits option.splits TensorImpl.splits)

lemma fold_refresh_impls_length: "length (impls (fold refresh_arg xs s)) = length (impls s)"
  by (induction xs arbitrary: s) (simp_all add: refresh_arg_impls_length)

lemma rewrapped_cong:
  "length (impls s0) = length (impls s1) \<Longrightarrow> rewrapped s0 cur h s t t' = rewrapped s1 cur h s t t'"
  by (cases t') (simp_all add: rewrapped_def)

text \<open>
  Claim C5.  The back interceptor runs under a differentiation layer on top of a
  well-formed layer stack, with the snapshot saved; the arguments of the operation are the
  last entries of the stack, none is a dictionary, and the assertions of the unwrapping
  hold for their tensors.  Then the operation is called on the stack extended by a
  duplicate of the arguments in which every tensor wrapped at the level of the top layer
  is replaced by its inner value.  If that call returns, leaving the arguments in place
  and the declared number of results (none a dictionary) after them, and keeping the
  layer stack, then the interceptor returns: the stack holds what was below the
  arguments followed by exactly the results, every defined result tensor replaced by a
  new wrapper that holds it, the level of the top layer and the liveness cell of that
  layer; the layer stack is restored; and the cached metadata of the wrapper of every
  tensor argument has been recomputed, so that it is the metadata of the wrapper's inner
  value (when that inner value is not itself a wrapped tensor argument of the call).
\<close>

theorem dynamicLayerBackFallback_inplace_protocol:
  assumes ne: "dynamicLayerStack s \<noteq> []"
    and lvl: "layerId (last (dynamicLayerStack s)) = int (length (dynamicLayerStack s))"
    and k: "key (last (dynamicLayerStack s)) = Autograd"
    and pg: "prevGradMode (last (dynamicLayerStack s)) \<noteq> None"
    and pv: "prev_local_keyset s \<noteq> None"
    and la: "length args = length (arguments (schema op))"
    and ua: "list_all (\<lambda>ivalue. \<not> isGenericDict ivalue
                \<and> list_all (unwrappable s (layerId (last (dynamicLayerStack s))))
                     (tensors_of ivalue)) args"
    and call: "callBoxed op
                 (pre @ args
                  @ map (map_tensors (unwrap_at s (layerId (last (dynamicLayerStack s))))) args)
                 (redispatch_state s) = ((None, pre @ args @ rets), s2)"
    and lr: "length rets = length (returns (schema op))"
    and nd: "list_all (\<lambda>ivalue. \<not> isGenericDict ivalue) rets"
    and f2: "dynamicLayerStack s2 = dynamicLayerStack (redispatch_state s)"
    and p2: "prev_local_keyset s2 \<noteq> None"
  shows "\<exists>rets' s'.
           dynamicLayerBackFallback op (pre @ args) s = ((None, pre @ rets'), s')
           \<and> dynamicLayerStack s' = dynamicLayerStack s
           \<and> list_all2
                (rel_ivalue (rewrapped s2 (layerId (last (dynamicLayerStack s)))
                               (lifeHandle (last (dynamicLayerStack s))) s'))
                rets rets'
           \<and> (\<forall>t w. IVTensor t \<in> set args \<and> maybeGetTensorWrapper t s' = Some w
                  \<and> \<not> (IVTensor (TensorWrapper_value s' w) \<in> set args
                        \<and> maybeGetTensorWrapper (TensorWrapper_value s' w) s' \<noteq> None)
                  \<longrightarrow> metadata_of s' t = metadata_of s' (TensorWrapper_value s' w))"
proof -
  let ?top = "last (dynamicLayerStack s)"
  let ?cur = "layerId ?top" and ?h = "lifeHandle ?top"
  let ?dup = "map (map_tensors (unwrap_at s ?cur)) args"
  from pv obtain p where p: "prev_local_keyset s = Some p" by auto
  have ku: "key ?top \<noteq> Undefined" using k by simp
  have d2: "dynamicLayerStack s2 = butlast (dynamicLayerStack s)"
    using f2 redispatch_state_props(1)[OF ne ku p] by simp
  let ?s4 = "(if key ?top = Autograd \<and> prevGradMode ?top = Some False
              then s2\<lparr>grad_mode := grad_mode s\<rparr> else s2)
               \<lparr>tls_local_dispatch_key_set :=
                  tls_local_dispatch_key_set (snd (popDynamicLayer s))\<rparr>"
  have s4: "dynamicLayerStack ?s4 = butlast (dynamicLayerStack s)"
           "prev_local_keyset ?s4 \<noteq> None" "impls ?s4 = impls s2"
    using d2 p2 by simp_all
  have l4: "layerId ?top = 1 + int (length (dynamicLayerStack ?s4))"
    using lvl ne s4(1) by (cases "dynamicLayerStack s" rule: rev_cases) simp_all
  from WithoutTop_dtor_ok[OF l4 s4(2)]
  obtain s5 where dtor: "WithoutTop_dtor ?top None (pre @ args @ rets) ?s4 =
                           ((None, pre @ args @ rets), s5)"
    and d5: "dynamicLayerStack s5 = dynamicLayerStack ?s4 @ [?top]"
    and i5: "impls s5 = impls ?s4"
    by blast
  have dls5: "dynamicLayerStack s5 = dynamicLayerStack s"
    using d5 s4(1) ne by simp
  have ne5: "dynamicLayerStack s5 \<noteq> []" using dls5 ne by simp
  have lvl5: "layerId (last (dynamicLayerStack s5)) = int (length (dynamicLayerStack s5))"
    using dls5 lvl by simp
  from step456_ok[OF ne5 lvl5 la lr nd, of pre]
  obtain rets' s6 where fin:
      "backFallback_step456 op Autograd ?cur (pre @ args @ rets) s5 =
         ((None, pre @ rets'), fold refresh_arg args s6)"
    and e6: "heap_ext s5 s6"
    and rel: "list_all2 (rel_ivalue (rewrapped s5 ?cur ?h s6)) rets rets'"
    unfolding dls5 by blast
  let ?s' = "fold refresh_arg args s6"
  have one: "backFallback_step12 op Autograd ?cur (pre @ args) s =
               ((None, pre @ args @ ?dup), s)"
    by (rule step12_ok[OF la ua])
  have two: "backFallback_redispatch op Autograd (prevGradMode ?top) (pre @ args @ ?dup) s =
               ((None, pre @ args @ rets), s5)"
    using redispatch_eq[OF ne ku p, of op "pre @ args @ ?dup"] call dtor k by simp
  have run: "dynamicLayerBackFallback op (pre @ args) s = ((None, pre @ rets'), ?s')"
    using ne k pg one two fin
    by (simp add: dynamicLayerBackFallback_def getDynamicLayerStack_def Let_def)
  have dls: "dynamicLayerStack ?s' = dynamicLayerStack s"
    using heap_ext_fields(1)[OF e6] dls5 by (simp add: fold_refresh_dls)
  have len: "length (impls s5) = length (impls s2)" using i5 s4(3) by simp
  have rel': "list_all2 (rel_ivalue (rewrapped s2 ?cur ?h ?s')) rets rets'"
  proof (rule list_all2_mono[OF rel])
    fix x y assume "rel_ivalue (rewrapped s5 ?cur ?h s6) x y"
    then show "rel_ivalue (rewrapped s2 ?cur ?h ?s') x y"
    proof (rule rel_ivalue_stable[rotated])
      fix t t' assume "rewrapped s5 ?cur ?h s6 t t'"
      then have "rewrapped s5 ?cur ?h ?s' t t'" by (rule rewrapped_fold_refresh)
      then show "rewrapped s2 ?cur ?h ?s' t t'" using rewrapped_cong[OF len] by simp
    qed
  qed
  have fresh: "\<forall>t w. IVTensor t \<in> set args \<and> maybeGetTensorWrapper t ?s' = Some w
                  \<and> \<not> (IVTensor (TensorWrapper_value ?s' w) \<in> set args
                        \<and> maybeGetTensorWrapper (TensorWrapper_value ?s' w) ?s' \<noteq> None)
                  \<longrightarrow> metadata_of ?s' t = metadata_of ?s' (TensorWrapper_value ?s' w)"
  proof (intro allI impI)
    fix t w
    assume a: "IVTensor t \<in> set args \<and> maybeGetTensorWrapper t ?s' = Some w
                  \<and> \<not> (IVTensor (TensorWrapper_value ?s' w) \<in> set args
                        \<and> maybeGetTensorWrapper (TensorWrapper_value ?s' w) ?s' \<noteq> None)"
    then have a1: "IVTensor t \<in> set args" and a2: "maybeGetTensorWrapper t s6 = Some w"
      and a3: "\<not> (IVTensor (TensorWrapper_value s6 w) \<in> set args
                        \<and> maybeGetTensorWrapper (TensorWrapper_value s6 w) s6 \<noteq> None)"
      by (simp_all add: fold_refresh_wrapper fold_refresh_value)
    from fold_refresh_fresh[OF a1 a2 a3]
    show "metadata_of ?s' t = metadata_of ?s' (TensorWrapper_value ?s' w)"
      by (simp add: fold_refresh_value)
  qed
  from run dls rel' fresh show ?thesis by blast
qed

theorem dynamicLayerBackFallback_inplace_protocol_witness:
  "fst (dynamicLayerBackFallback ex_t_inplace [IVTensor (TensorAt 2)] ex_state2) =
     (None, [IVTensor (TensorAt 3)])
   \<and> impls (snd (dynamicLayerBackFallback ex_t_inplace [IVTensor (TensorAt 2)] ex_state2)) =
       [DenseImpl ex_meta,
        TensorWrapper (TensorAt 0) 1 0 ex_meta_t,
        TensorWrapper (TensorAt 1) 2 1 ex_meta_t,
        TensorWrapper (TensorAt 1) 2 1 ex_meta_t]
   \<and> metadata_of (snd (dynamicLayerBackFallback ex_t_inplace [IVTensor (TensorAt 2)] ex_state2))
        (TensorAt 2) =
      metadata_of (snd (dynamicLayerBackFallback ex_t_inplace [IVTensor (TensorAt 2)] ex_state2))
        (TensorAt 1)"
proof -
  let ?args = "[IVTensor (TensorAt 2)]"
  let ?rets = "[IVTensor (TensorAt 1)]"
  let ?s2 = "(redispatch_state ex_state2)
               \<lparr>impls := [DenseImpl ex_meta,
                          TensorWrapper (TensorAt 0) 1 0 ex_meta_t,
                          TensorWrapper (TensorAt 1) 2 1 ex_meta]\<rparr>"
  let ?run = "dynamicLayerBackFallback ex_t_inplace ?args ex_state2"
  have ne: "dynamicLayerStack ex_state2 \<noteq> []" by (simp add: ex_state2_def)
  have top: "last (dynamicLayerStack ex_state2) = ex_grad_layer 2 1"
    by (simp add: ex_state2_def)
  have lvl: "layerId (last (dynamicLayerStack ex_state2)) =
               int (length (dynamicLayerStack ex_state2))"
    by (simp add: ex_state2_def ex_grad_layer_def)
  have cur: "layerId (last (dynamicLayerStack ex_state2)) = 2"
    by (simp add: ex_state2_def ex_grad_layer_def)
  have k: "key (last (dynamicLayerStack ex_state2)) = Autograd"
    by (simp add: ex_state2_def ex_grad_layer_def)
  have pg: "prevGradMode (last (dynamicLayerStack ex_state2)) \<noteq> None"
    by (simp add: ex_state2_def ex_grad_layer_def)
  have pv: "prev_local_keyset ex_state2 \<noteq> None" by (simp add: ex_state2_def)
  have la: "length ?args = length (arguments (schema ex_t_inplace))"
    by (simp add: ex_t_inplace_def)
  have lr: "length ?rets = length (returns (schema ex_t_inplace))"
    by (simp add: ex_t_inplace_def)
  have u: "unwrap_at ex_state2 2 (TensorAt 2) = TensorAt 1"
    by (simp add: unwrap_at_def maybeGetTensorWrapper_def impl_at_def TensorWrapper_level_def
        TensorWrapper_value_def is_alive_def ex_state2_def)
  have ua: "list_all (\<lambda>ivalue. \<not> isGenericDict ivalue
                \<and> list_all (unwrappable ex_state2 (layerId (last (dynamicLayerStack ex_state2))))
                     (tensors_of ivalue)) ?args"
    unfolding cur
    by (simp add: isGenericDict_def unwrappable_def maybeGetTensorWrapper_def impl_at_def
        TensorWrapper_level_def TensorWrapper_value_def is_alive_def defined_def ex_state2_def)
  have ri: "impls (redispatch_state ex_state2) = impls ex_state2"
    and rd: "dynamicLayerStack (redispatch_state ex_state2) = butlast (dynamicLayerStack ex_state2)"
    and rp: "prev_local_keyset (redispatch_state ex_state2) = prev_local_keyset ex_state2"
    using redispatch_state_props[OF ne, of ex_tls] k by (simp_all add: ex_state2_def)
  have call: "callBoxed ex_t_inplace
                 ([] @ ?args
                  @ map (map_tensors (unwrap_at ex_state2
                                        (layerId (last (dynamicLayerStack ex_state2))))) ?args)
                 (redispatch_state ex_state2) = ((None, [] @ ?args @ ?rets), ?s2)"
    unfolding cur
    using u ri
    by (simp add: ex_t_inplace_def ex_t_inplace_call_def map_tensors_def set_meta_def
        ex_state2_def)
  have nd: "list_all (\<lambda>ivalue. \<not> isGenericDict ivalue) ?rets"
    by (simp add: isGenericDict_def)
  have f2: "dynamicLayerStack ?s2 = dynamicLayerStack (redispatch_state ex_state2)" by simp
  have p2: "prev_local_keyset ?s2 \<noteq> None" using rp pv by simp
  from dynamicLayerBackFallback_inplace_protocol[OF ne lvl k pg pv la ua call lr nd f2 p2]
  obtain rets' s' where run: "dynamicLayerBackFallback ex_t_inplace ([] @ ?args) ex_state2 =
                                ((None, [] @ rets'), s')"
    and fresh: "\<forall>t w. IVTensor t \<in> set ?args \<and> maybeGetTensorWrapper t s' = Some w
                  \<and> \<not> (IVTensor (TensorWrapper_value s' w) \<in> set ?args
                        \<and> maybeGetTensorWrapper (TensorWrapper_value s' w) s' \<noteq> None)
                  \<longrightarrow> metadata_of s' t = metadata_of s' (TensorWrapper_value s' w)"
    by blast
  have ev: "fst ?run = (None, [IVTensor (TensorAt 3)])
            \<and> impls (snd ?run) =
                [DenseImpl ex_meta,
                 TensorWrapper (TensorAt 0) 1 0 ex_meta_t,
                 TensorWrapper (TensorAt 1) 2 1 ex_meta_t,
                 TensorWrapper (TensorAt 1) 2 1 ex_meta_t]"
    by (simp add: dynamicLayerBackFallback_def backFallback_step12_def
        backFallback_redispatch_def backFallback_step456_def WithoutTop_dtor_def
        ForceLocalDispatchKeySet_dtor_def resetFunctorchLocalDispatchKeySetRAII_def
        popDynamicLayer_def pushDynamicLayer_def setDynamicLayerFrontBackKeysIncluded_def
        tls_set_dispatch_key_included_def backFallback_unwrap_def backFallback_wrap_def
        foreachTensorInplace_def foreachTensorInplace_body_def makeTensorWrapper_def
        getLifeHandleForLevel_def maybeGetTensorWrapper_def impl_at_def is_alive_def
        TensorWrapper_level_def TensorWrapper_value_def metadata_of_def refresh_arg_def
        refreshMetadata_def getDynamicLayerStack_def defined_def Let_def
        ex_state2_def ex_grad_layer_def ex_t_inplace_def ex_t_inplace_call_def set_meta_def
        ex_tls_def)
  from run have s': "s' = snd ?run" by simp
  have w: "maybeGetTensorWrapper (TensorAt 2) s' = Some 2"
    and v: "TensorWrapper_value s' 2 = TensorAt 1"
    unfolding s' using ev
    by (simp_all add: maybeGetTensorWrapper_def impl_at_def TensorWrapper_value_def)
  from fresh w v have "metadata_of s' (TensorAt 2) = metadata_of s' (TensorAt 1)"
    by auto
  with ev show ?thesis unfolding s' by simp
qed

section \<open>The routing of \<^verbatim>\<open>nll_loss_forward\<close>\<close>

lemma unwrapTensorAtLevel_bdim:
  "(snd (unwrapTensorAtLevel t level s) = None) = (\<not> batchedAtLevel s level t)"
  by (cases "maybeGetBatchedImpl t s") (simp_all add: unwrapTensorAtLevel_def batchedAtLevel_def)

lemma unwrapTensorAtLevel_batched:
  assumes "batchedAtLevel s level t"
  shows "unwrapTensorAtLevel t level s = (inner_value s t, batch_dim s t)"
  using assms
  by (cases "maybeGetBatchedImpl t s")
     (simp_all add: unwrapTensorAtLevel_def batchedAtLevel_def inner_value_def batch_dim_def)

lemma weight_bdim:
  "((case weight of None \<Rightarrow> None | Some w \<Rightarrow> snd (unwrapTensorAtLevel w level s)) = None)
     = weight_unbatched s level weight"
  by (cases weight) (simp_all add: weight_unbatched_def unwrapTensorAtLevel_bdim)

lemma batch_dim_batched:
  "batchedAtLevel s level t \<Longrightarrow> batch_dim s t \<noteq> None"
  by (cases "maybeGetBatchedImpl t s") (simp_all add: batchedAtLevel_def batch_dim_def)

lemma slice_arg_spec: "slice_arg at level (int i) ivalue s = example_of at level i ivalue s"
proof (cases ivalue)
  case (IVTensor t)
  show ?thesis
  proof (cases "batchedAtLevel s level t")
    case True
    from batch_dim_batched[OF True] obtain d where d: "batch_dim s t = Some d" by auto
    from unwrapTensorAtLevel_batched[OF True] d IVTensor True show ?thesis
      by (simp add: slice_arg_def example_of_def and_then_def split: prod.splits sum.splits)
  next
    case False
    then have "snd (unwrapTensorAtLevel t level s) = None"
      by (simp add: unwrapTensorAtLevel_bdim)
    then obtain inner where "unwrapTensorAtLevel t level s = (inner, None)"
      by (metis prod.collapse)
    with IVTensor False show ?thesis by (simp add: slice_arg_def example_of_def)
  qed
qed (simp_all add: slice_arg_def example_of_def)

lemma slice_args_spec: "slice_args at level (int i) args s = examples_of at level i args s"
  by (induction args arbitrary: s)
     (simp_all add: slice_arg_spec and_then_def split: prod.splits sum.splits)

lemma call_for_two_tensors_spec:
  "call_for_two_tensors op xs s =
     (case callBoxed op xs s of
        ((None, [IVTensor r0, IVTensor r1]), s2) \<Rightarrow> (Inr (r0, r1), s2)
      | ((None, stack1), s2) \<Rightarrow> (Inl InternalAssert, s2)
      | ((Some e, stack1), s2) \<Rightarrow> (Inl e, s2))"
  by (simp add: call_for_two_tensors_def
      split: prod.splits option.splits list.splits IValue.splits)

lemma one_example_spec:
  "(case slice_args at level (int i) args s of
      (Inl e, s1) \<Rightarrow> (Inl e, s1)
    | (Inr sliced, s1) \<Rightarrow> call_for_two_tensors op sliced s1)
   = operation_on_example at op level args i s"
  unfolding slice_args_spec operation_on_example_def and_then_def call_for_two_tensors_spec
  by (simp split: prod.splits sum.splits)

lemma slow_fallback_loop_spec:
  "slow_fallback_loop at op level args (int i) k shards s =
     and_then (operation_on_examples at op level args [i ..< i + k] s)
       (\<lambda>rs s1. (Inr (shards @ rs), s1))"
proof (induction k arbitrary: i shards s)
  case 0
  then show ?case by (simp add: and_then_def)
next
  case (Suc k)
  define j where "j = int (Suc i)"
  define rest where "rest = [Suc i ..< Suc i + k]"
  have idx: "int i + 1 = j" by (simp add: j_def)
  have up: "[i ..< i + Suc k] = i # rest" by (simp add: rest_def upt_conv_Cons)
  have ih: "\<And>shards s. slow_fallback_loop at op level args j k shards s =
               and_then (operation_on_examples at op level args rest s)
                 (\<lambda>rs s1. (Inr (shards @ rs), s1))"
    unfolding j_def rest_def by (rule Suc.IH)
  have step: "slow_fallback_loop at op level args (int i) (Suc k) shards s =
     (case operation_on_example at op level args i s of
        (Inl e, s2) \<Rightarrow> (Inl e, s2)
      | (Inr shard, s2) \<Rightarrow> slow_fallback_loop at op level args j k (shards @ [shard]) s2)"
    unfolding one_example_spec[symmetric] idx[symmetric]
    by (simp split: prod.splits sum.splits)
  show ?case
    unfolding step up
    by (simp add: ih and_then_def split: prod.splits sum.splits)
qed

lemma slow_fallback_spec:
  assumes "maybeCurrentDynamicLayer s = Some layer" and "batchSize layer = Some batch_size"
  shows "slow_fallback at op args s =
           joined_examples at op (layerId layer) (nat batch_size) args s"
proof -
  have "slow_fallback_loop at op (layerId layer) args 0 (nat batch_size) [] s =
          operation_on_examples at op (layerId layer) args [0 ..< nat batch_size] s"
    using slow_fallback_loop_spec[of at op "layerId layer" args 0 "nat batch_size" "[]" s]
    by (simp add: and_then_def split: prod.splits sum.splits)
  then show ?thesis
    using assms
    by (simp add: slow_fallback_def joined_examples_def batch_results_def and_then_def
        split: prod.splits sum.splits)
qed

text \<open>
  Claim C9.  Under a current layer, with the operator \<^verbatim>\<open>aten::nll_loss_forward\<close> registered,
  the call is answered by the specialized rule if \<open>self\<close> and \<open>target\<close> are both batched at
  the level of the current layer, the weight is absent or not batched at that level, and
  \<open>ignore_index\<close> is negative; in every other case the result of the call is the result of
  the generic slow path on the five original arguments, in the state of the call: the
  routing itself raises nothing and changes nothing.  Under a batching layer, which has
  a batch size, the slow path preserves the semantics of the unbatched operation: what
  it returns is made of the results of the operation on the examples
  \<open>0, \<dots>, batch size - 1\<close> of the arguments, in this order, joined along a new first
  dimension that is the batch dimension at the level; it fails where the operation
  fails on an example.
\<close>

theorem nll_loss_forward_plumbing_routing:
  assumes top: "maybeCurrentDynamicLayer s = Some layer"
    and reg: "findSchema at ''aten::nll_loss_forward'' '''' = Some op"
  shows "nll_loss_forward_plumbing at self target weight reduction ignore_index s =
           (if batchedAtLevel s (layerId layer) self \<and> batchedAtLevel s (layerId layer) target
               \<and> weight_unbatched s (layerId layer) weight \<and> ignore_index < 0
            then use_batch_rule at (layerId layer) self target reduction s
            else slow_fallback at op
                   [IVTensor self, IVTensor target,
                    (case weight of None \<Rightarrow> IVNone | Some w \<Rightarrow> IVTensor w),
                    IVInt reduction, IVInt ignore_index] s)
         \<and> (batchSize layer = Some batch_size \<longrightarrow>
              slow_fallback at op args s =
                joined_examples at op (layerId layer) (nat batch_size) args s)"
proof (intro conjI impI)
  assume "batchSize layer = Some batch_size"
  with top show "slow_fallback at op args s =
                   joined_examples at op (layerId layer) (nat batch_size) args s"
    by (rule slow_fallback_spec)
next
  show "nll_loss_forward_plumbing at self target weight reduction ignore_index s =
           (if batchedAtLevel s (layerId layer) self \<and> batchedAtLevel s (layerId layer) target
               \<and> weight_unbatched s (layerId layer) weight \<and> ignore_index < 0
            then use_batch_rule at (layerId layer) self target reduction s
            else slow_fallback at op
                   [IVTensor self, IVTensor target,
                    (case weight of None \<Rightarrow> IVNone | Some w \<Rightarrow> IVTensor w),
                    IVInt reduction, IVInt ignore_index] s)"
  proof (cases "batchedAtLevel s (layerId layer) self \<and> batchedAtLevel s (layerId layer) target
               \<and> weight_unbatched s (layerId layer) weight \<and> ignore_index < 0")
    case True
    then have c: "snd (unwrapTensorAtLevel self (layerId layer) s) \<noteq> None
        \<and> snd (unwrapTensorAtLevel target (layerId layer) s) \<noteq> None
        \<and> (case weight of None \<Rightarrow> None
            | Some w \<Rightarrow> snd (unwrapTensorAtLevel w (layerId layer) s)) = None
        \<and> ignore_index < 0"
      unfolding unwrapTensorAtLevel_bdim weight_bdim by simp
    from True have u:
        "unwrapTensorAtLevel self (layerId layer) s = (inner_value s self, batch_dim s self)"
        "unwrapTensorAtLevel target (layerId layer) s = (inner_value s target, batch_dim s target)"
      by (simp_all add: unwrapTensorAtLevel_batched)
    have "nll_loss_forward_plumbing at self target weight reduction ignore_index s =
            use_batch_rule at (layerId layer) self target reduction s"
      unfolding nll_loss_forward_plumbing_def Let_def top option.case if_P[OF c]
      by (simp add: u use_batch_rule_def with_excluded_def Let_def batch_results_def
          split: prod.splits sum.splits)
    then show ?thesis unfolding if_P[OF True] .
  next
    case False
    then have c: "\<not> (snd (unwrapTensorAtLevel self (layerId layer) s) \<noteq> None
        \<and> snd (unwrapTensorAtLevel target (layerId layer) s) \<noteq> None
        \<and> (case weight of None \<Rightarrow> None
            | Some w \<Rightarrow> snd (unwrapTensorAtLevel w (layerId layer) s)) = None
        \<and> ignore_index < 0)"
      unfolding unwrapTensorAtLevel_bdim weight_bdim by simp
    have "nll_loss_forward_plumbing at self target weight reduction ignore_index s =
            slow_fallback at op
                     [IVTensor self, IVTensor target,
                      (case weight of None \<Rightarrow> IVNone | Some w \<Rightarrow> IVTensor w),
                      IVInt reduction, IVInt ignore_index] s"
      unfolding nll_loss_forward_plumbing_def Let_def top option.case if_not_P[OF c]
      by (simp add: findSchemaOrThrow_def reg)
    then show ?thesis unfolding if_not_P[OF False] .
  qed
qed

theorem nll_loss_forward_plumbing_routing_witness:
  "nll_loss_forward_plumbing ex_aten (TensorAt 1) (TensorAt 3) (Some (TensorAt 4))
       Reduction_None (- 100) ex_state_loss =
     (Inr (TensorAt 5, TensorAt 2),
      ex_state_loss\<lparr>impls := impls ex_state_loss
                         @ [BatchedTensorImpl (TensorAt 0) 0 1
                              \<lparr>sizes = [4, 5, 3], strides = [], storage_offset = 0\<rparr>]\<rparr>)
   \<and> fst (nll_loss_forward_plumbing ex_aten (TensorAt 1) (TensorAt 3) (Some (TensorAt 4))
            Reduction_None 0 ex_state_loss) = Inr (TensorAt 15, TensorAt 16)
   \<and> drop 5 (impls (snd (nll_loss_forward_plumbing ex_aten (TensorAt 1) (TensorAt 3)
                           (Some (TensorAt 4)) Reduction_None 0 ex_state_loss))) =
       [ex_dense [5, 3], ex_dense [5], ex_dense [5, 3], ex_dense [5],
        ex_dense [5, 3], ex_dense [5], ex_dense [5, 3], ex_dense [5],
        ex_dense [4, 5, 3], ex_dense [4, 5],
        BatchedTensorImpl (TensorAt 13) 0 1
          \<lparr>sizes = [4, 5, 3], strides = [], storage_offset = 0\<rparr>,
        BatchedTensorImpl (TensorAt 14) 0 1
          \<lparr>sizes = [4, 5], strides = [], storage_offset = 0\<rparr>]"
proof -
  let ?args = "[IVTensor (TensorAt 1), IVTensor (TensorAt 3), IVTensor (TensorAt 4),
                IVInt Reduction_None, IVInt 0]"
  have top: "maybeCurrentDynamicLayer ex_state_loss = Some ex_vmap_layer"
    by (simp add: maybeCurrentDynamicLayer_def ex_state_loss_def)
  have reg: "findSchema ex_aten ''aten::nll_loss_forward'' '''' = Some ex_nll_loss_forward"
    by (simp add: ex_aten_def)
  have lv: "layerId ex_vmap_layer = 1" and bs: "batchSize ex_vmap_layer = Some 4"
    by (simp_all add: ex_vmap_layer_def)
  have b: "batchedAtLevel ex_state_loss 1 (TensorAt 1)" "batchedAtLevel ex_state_loss 1 (TensorAt 3)"
    "\<not> batchedAtLevel ex_state_loss 1 (TensorAt 4)"
    by (simp_all add: batchedAtLevel_def maybeGetBatchedImpl_def BatchedTensorImpl_level_def
        impl_at_def ex_state_loss_def ex_dense_def)
  have w: "weight_unbatched ex_state_loss 1 (Some (TensorAt 4))"
    using b by (simp add: weight_unbatched_def)
  have rule: "use_batch_rule ex_aten 1 (TensorAt 1) (TensorAt 3) Reduction_None ex_state_loss =
     (Inr (TensorAt 5, TensorAt 2),
      ex_state_loss\<lparr>impls := impls ex_state_loss
                         @ [BatchedTensorImpl (TensorAt 0) 0 1
                              \<lparr>sizes = [4, 5, 3], strides = [], storage_offset = 0\<rparr>]\<rparr>)"
    by (simp add: use_batch_rule_def with_excluded_def batch_results_def Let_def
        nll_loss_forward_self_target_batch_rule_def and_then_def makeBatched_def
        ExcludeDispatchKeyGuard_ctor_def ExcludeDispatchKeyGuard_dtor_def
        inner_value_def batch_dim_def maybeGetBatchedImpl_def BatchedTensorImpl_value_def
        BatchedTensorImpl_bdim_def impl_at_def metadata_of_def ex_size_def
        Reduction_None_def Reduction_Sum_def Reduction_Mean_def
        ex_aten_def ex_state_loss_def ex_dense_def)
  have joined: "joined_examples ex_aten ex_nll_loss_forward 1 (nat 4) ?args ex_state_loss =
     (Inr (TensorAt 15, TensorAt 16),
      ex_state_loss\<lparr>impls := impls ex_state_loss @
        [ex_dense [5, 3], ex_dense [5], ex_dense [5, 3], ex_dense [5],
         ex_dense [5, 3], ex_dense [5], ex_dense [5, 3], ex_dense [5],
         ex_dense [4, 5, 3], ex_dense [4, 5],
         BatchedTensorImpl (TensorAt 13) 0 1
           \<lparr>sizes = [4, 5, 3], strides = [], storage_offset = 0\<rparr>,
         BatchedTensorImpl (TensorAt 14) 0 1
           \<lparr>sizes = [4, 5], strides = [], storage_offset = 0\<rparr>]\<rparr>)"
    by (simp add: joined_examples_def operation_on_example_def example_of_def
        batch_results_def and_then_def makeBatched_def upt_rec
        batchedAtLevel_def inner_value_def batch_dim_def maybeGetBatchedImpl_def
        BatchedTensorImpl_value_def BatchedTensorImpl_bdim_def BatchedTensorImpl_level_def
        impl_at_def metadata_of_def ex_select_def ex_stack_def Let_def nth_append
        ex_aten_def ex_nll_loss_forward_def ex_state_loss_def ex_dense_def)
  note routing = nll_loss_forward_plumbing_routing[OF top reg]
  from routing[where self = "TensorAt 1" and target = "TensorAt 3" and weight = "Some (TensorAt 4)"
           and ignore_index = "- 100" and reduction = Reduction_None]
  have one: "nll_loss_forward_plumbing ex_aten (TensorAt 1) (TensorAt 3) (Some (TensorAt 4))
               Reduction_None (- 100) ex_state_loss =
             use_batch_rule ex_aten 1 (TensorAt 1) (TensorAt 3) Reduction_None ex_state_loss"
    using b w by (simp add: lv)
  from routing[where self = "TensorAt 1" and target = "TensorAt 3" and weight = "Some (TensorAt 4)"
           and ignore_index = 0 and reduction = Reduction_None and batch_size = 4
           and args = ?args] bs
  have two: "nll_loss_forward_plumbing ex_aten (TensorAt 1) (TensorAt 3) (Some (TensorAt 4))
               Reduction_None 0 ex_state_loss =
             joined_examples ex_aten ex_nll_loss_forward 1 (nat 4) ?args ex_state_loss"
    by (simp add: lv)
  show ?thesis
    unfolding one rule two joined by (simp add: ex_state_loss_def)
qed

end
